theory Spec2Isabelle
  imports Complex_Main
begin

section \<open>The mesh exporter of export\_mu/mesh.py\<close>

text \<open>
  A shallow embedding of the geometry pipeline of \<^verbatim>\<open>export_mu/mesh.py\<close>:
  \<^verbatim>\<open>split_face\<close>, \<^verbatim>\<open>make_tris\<close>, \<^verbatim>\<open>make_verts\<close>, \<^verbatim>\<open>make_tangents\<close>,
  \<^verbatim>\<open>make_mesh\<close>, \<^verbatim>\<open>mesh_materials\<close>, \<^verbatim>\<open>make_renderer\<close>, \<^verbatim>\<open>mesh_bones\<close> and
  \<^verbatim>\<open>handle_skinned_mesh\<close>.

  Python exceptions are values of \<open>error\<close>; a function that can raise returns
  \<open>error + 'a\<close>. Coordinates and weights are Python floats in the source and reals
  in the records of the model; the arithmetic that \<^verbatim>\<open>make_tangents\<close> does on them is
  a parameter of the model, so that what is proved of it does not depend on how the
  program rounds. Vertex and loop indices come from the host's mesh and are never
  negative; they are \<open>nat\<close>.
\<close>

subsection \<open>Errors and indexing\<close>

datatype error = IndexError | TypeError | AttributeError | NameError string | ZeroDivisionError

definition bind_err :: "error + 'a \<Rightarrow> ('a \<Rightarrow> error + 'b) \<Rightarrow> error + 'b" where
  "bind_err m f = (case m of Inl e \<Rightarrow> Inl e | Inr x \<Rightarrow> f x)"

text \<open>\<^verbatim>\<open>xs[i]\<close> raises IndexError out of range.\<close>

definition py_index :: "'a list \<Rightarrow> nat \<Rightarrow> error + 'a" where
  "py_index xs i = (if i < length xs then Inr (xs ! i) else Inl IndexError)"

subsection \<open>The source mesh\<close>

type_synonym vec3 = "real \<times> real \<times> real"
type_synonym uv = "real \<times> real"

text \<open>An element of \<^verbatim>\<open>vertex.groups\<close>: the index of a vertex group and a weight.\<close>

record vgroup_elem =
  group :: nat
  weight :: real

record mesh_vertex =
  co :: vec3
  normal :: vec3
  groups :: "vgroup_elem list"

record polygon =
  vertices :: "nat list"
  loop_start :: nat
  loop_total :: nat

record material =
  mat_name :: string
  shaderName :: string

text \<open>
  The mesh that \<^verbatim>\<open>obj.to_mesh\<close> hands to the pipeline. \<open>uv_layers\<close> holds the
  \<^verbatim>\<open>data\<close> of each layer, one uv per loop. \<open>mesh_groups\<close> is the attribute
  \<^verbatim>\<open>mesh.groups\<close>, which exists only once something has assigned it.
\<close>

record mesh =
  polygons :: "polygon list"
  mesh_vertices :: "mesh_vertex list"
  uv_layers :: "uv list list"
  materials :: "material list"
  mesh_groups :: "vgroup_elem list list option"

text \<open>A triangle corner before deduplication: \<^verbatim>\<open>(vertex index, (uv of layer 0, ...))\<close>.\<close>

type_synonym corner = "nat \<times> uv list"
type_synonym corner_tri = "corner \<times> corner \<times> corner"
type_synonym index_tri = "nat \<times> nat \<times> nat"

subsection \<open>split\_face\<close>

text \<open>\<^verbatim>\<open>tuple(map(lambda l: tuple(l[i]), uv))\<close>: the uv of corner \<open>i\<close> in every layer.\<close>

definition uv_corner :: "uv list list \<Rightarrow> nat \<Rightarrow> error + uv list" where
  "uv_corner uv i =
     (if list_all (\<lambda>l. i < length l) uv then Inr (map (\<lambda>l. l ! i) uv) else Inl IndexError)"

text \<open>\<^verbatim>\<open>(fv[i], tuple(map(lambda l: tuple(l[i]), uv)))\<close>\<close>

definition face_corner :: "nat list \<Rightarrow> uv list list \<Rightarrow> nat \<Rightarrow> error + corner" where
  "face_corner fv uv i =
     bind_err (py_index fv i) (\<lambda>v. bind_err (uv_corner uv i) (\<lambda>w. Inr (v, w)))"

text \<open>The loop \<^verbatim>\<open>for i in range(1, len(fv) - 1)\<close>, over the list of its indices.\<close>

fun fan_loop :: "nat list \<Rightarrow> uv list list \<Rightarrow> nat list \<Rightarrow> error + corner_tri list" where
  "fan_loop fv uv [] = Inr []"
| "fan_loop fv uv (i # is) =
     bind_err (face_corner fv uv 0) (\<lambda>c0.
     bind_err (face_corner fv uv i) (\<lambda>c1.
     bind_err (face_corner fv uv (i + 1)) (\<lambda>c2.
     bind_err (fan_loop fv uv is) (\<lambda>tris. Inr ((c0, c1, c2) # tris)))))"

text \<open>\<^verbatim>\<open>layer.data[s:e]\<close> for every layer of \<^verbatim>\<open>mesh.uv_layers[:2]\<close>.\<close>

definition face_uv :: "mesh \<Rightarrow> polygon \<Rightarrow> uv list list" where
  "face_uv m face =
     (let s = loop_start face; e = loop_start face + loop_total face
      in map (\<lambda>layer. take (e - s) (drop s layer)) (take 2 (uv_layers m)))"

definition split_face :: "mesh \<Rightarrow> nat \<Rightarrow> error + corner_tri list" where
  "split_face m index =
     bind_err (py_index (polygons m) index) (\<lambda>face.
       let uv = face_uv m face; fv = vertices face
       in fan_loop fv uv [1 ..< length fv - 1])"

subsection \<open>build\_submeshes and make\_tris\<close>

definition build_submeshes :: "mesh \<Rightarrow> nat list list" where
  "build_submeshes m = [[0 ..< length (polygons m)]]"

text \<open>
  \<^verbatim>\<open>make_tris\<close> walks one submesh with a cursor \<open>i\<close>: the entries before the cursor
  are triangles already, the entries from the cursor on are face indices.
  \<^verbatim>\<open>sm[i:i+1] = tris; i += len(tris)\<close> replaces the face at the cursor by its
  triangles and moves the cursor behind them.
\<close>

fun make_tris_sm :: "mesh \<Rightarrow> nat list \<Rightarrow> error + corner_tri list" where
  "make_tris_sm m [] = Inr []"
| "make_tris_sm m (f # fs) =
     bind_err (split_face m f) (\<lambda>tris.
     bind_err (make_tris_sm m fs) (\<lambda>rest. Inr (tris @ rest)))"

fun make_tris :: "mesh \<Rightarrow> nat list list \<Rightarrow> error + corner_tri list list" where
  "make_tris m [] = Inr []"
| "make_tris m (sm # sms) =
     bind_err (make_tris_sm m sm) (\<lambda>t.
     bind_err (make_tris m sms) (\<lambda>ts. Inr (t # ts)))"

subsection \<open>make\_verts\<close>

text \<open>The four lists \<^verbatim>\<open>verts, normals, uvs, groups\<close> that \<^verbatim>\<open>make_verts\<close> appends to.\<close>

record vstream =
  vs_verts :: "vec3 list"
  vs_normals :: "vec3 list"
  vs_uvs :: "uv list list"
  vs_groups :: "vgroup_elem list list"

definition empty_vstream :: vstream where
  "empty_vstream = \<lparr> vs_verts = [], vs_normals = [], vs_uvs = [], vs_groups = [] \<rparr>"

text \<open>The dict \<^verbatim>\<open>vuvdict\<close>.\<close>

type_synonym vuvdict = "corner \<rightharpoonup> nat"

text \<open>
  The body of \<^verbatim>\<open>for vuv in ft\<close>: a corner that is not in the dict takes the index
  \<^verbatim>\<open>len(verts)\<close> and its vertex is appended to the four lists; the body yields
  \<^verbatim>\<open>vuvdict[vuv]\<close>, which \<^verbatim>\<open>tv.append\<close> collects.
\<close>

definition dedup_corner ::
  "mesh \<Rightarrow> vstream \<times> vuvdict \<Rightarrow> corner \<Rightarrow> error + ((vstream \<times> vuvdict) \<times> nat)" where
  "dedup_corner m sd vuv =
     (case snd sd vuv of
        Some i \<Rightarrow> Inr (sd, i)
      | None \<Rightarrow>
          bind_err (py_index (mesh_vertices m) (fst vuv)) (\<lambda>mv.
            let vs = fst sd; i = length (vs_verts vs)
            in Inr ((\<lparr> vs_verts = vs_verts vs @ [co mv],
                        vs_normals = vs_normals vs @ [normal mv],
                        vs_uvs = vs_uvs vs @ [snd vuv],
                        vs_groups = vs_groups vs @ [groups mv] \<rparr>,
                     (snd sd)(vuv \<mapsto> i)), i)))"

definition dedup_tri ::
  "mesh \<Rightarrow> vstream \<times> vuvdict \<Rightarrow> corner_tri \<Rightarrow> error + ((vstream \<times> vuvdict) \<times> index_tri)" where
  "dedup_tri m sd ft =
     (case ft of (a, b, c) \<Rightarrow>
        bind_err (dedup_corner m sd a) (\<lambda>(sd1, i).
        bind_err (dedup_corner m sd1 b) (\<lambda>(sd2, j).
        bind_err (dedup_corner m sd2 c) (\<lambda>(sd3, k). Inr (sd3, (i, j, k))))))"

text \<open>The loop \<^verbatim>\<open>for i, ft in enumerate(sm)\<close>, which rewrites \<^verbatim>\<open>sm[i]\<close>.\<close>

fun dedup_sm ::
  "mesh \<Rightarrow> vstream \<times> vuvdict \<Rightarrow> corner_tri list \<Rightarrow>
     error + ((vstream \<times> vuvdict) \<times> index_tri list)" where
  "dedup_sm m sd [] = Inr (sd, [])"
| "dedup_sm m sd (ft # fts) =
     bind_err (dedup_tri m sd ft) (\<lambda>(sd1, tv).
     bind_err (dedup_sm m sd1 fts) (\<lambda>(sd2, tvs). Inr (sd2, tv # tvs)))"

text \<open>The loop \<^verbatim>\<open>for sm in submeshes\<close>; \<^verbatim>\<open>vuvdict = {}\<close> is its first statement.\<close>

fun make_verts_loop ::
  "mesh \<Rightarrow> vstream \<Rightarrow> corner_tri list list \<Rightarrow> error + (vstream \<times> index_tri list list)" where
  "make_verts_loop m vs [] = Inr (vs, [])"
| "make_verts_loop m vs (sm # sms) =
     bind_err (dedup_sm m (vs, Map.empty) sm) (\<lambda>(sd, sm').
     bind_err (make_verts_loop m (fst sd) sms) (\<lambda>(vs', sms'). Inr (vs', sm' # sms')))"

text \<open>
  \<^verbatim>\<open>make_verts\<close> returns the four lists; the submeshes are rewritten in place, so the
  model returns them too.
\<close>

definition make_verts ::
  "mesh \<Rightarrow> corner_tri list list \<Rightarrow> error + (vstream \<times> index_tri list list)" where
  "make_verts m submeshes = make_verts_loop m empty_vstream submeshes"

subsection \<open>The arithmetic of the host\<close>

text \<open>
  \<^verbatim>\<open>make_tangents\<close> computes with Python floats and with the \<^verbatim>\<open>Vector\<close> class of the
  host's \<^verbatim>\<open>mathutils\<close>. Neither is part of this repository, and both round. The
  model takes them as a parameter: a record of the operations the source uses, on a
  type \<open>'f\<close> of floats and a type \<open>'v\<close> of vector values. What is proved of
  \<^verbatim>\<open>make_tangents\<close> is proved for every such record.
\<close>

record ('f, 'v) arith =
  f_sub :: "'f \<Rightarrow> 'f \<Rightarrow> 'f"
  f_mul :: "'f \<Rightarrow> 'f \<Rightarrow> 'f"
  f_less :: "'f \<Rightarrow> 'f \<Rightarrow> bool"
  f_zero :: 'f
  f_eps :: 'f
  f_one :: 'f
  f_neg_one :: 'f
  v_zero :: 'v
  v_of :: "'f \<times> 'f \<times> 'f \<Rightarrow> 'v"
  v_tuple :: "'v \<Rightarrow> 'f \<times> 'f \<times> 'f"
  v_add :: "'v \<Rightarrow> 'v \<Rightarrow> 'v"
  v_sub :: "'v \<Rightarrow> 'v \<Rightarrow> 'v"
  v_scale :: "'f \<Rightarrow> 'v \<Rightarrow> 'v"
  v_div_raises :: "'f \<Rightarrow> bool"
  v_div :: "'v \<Rightarrow> 'f \<Rightarrow> 'v"
  v_dot :: "'v \<Rightarrow> 'v \<Rightarrow> 'f"
  v_normalize :: "'v \<Rightarrow> 'v"

text \<open>
  \<^item> \<open>f_sub\<close>, \<open>f_mul\<close>, \<open>f_less\<close>: \<^verbatim>\<open>-\<close>, \<^verbatim>\<open>*\<close> and \<^verbatim>\<open><\<close> on floats; \<open>f_zero\<close>,
    \<open>f_eps\<close>, \<open>f_one\<close>, \<open>f_neg_one\<close>: the literals \<^verbatim>\<open>0\<close>, \<^verbatim>\<open>1e-6\<close>, \<^verbatim>\<open>1.0\<close>, \<^verbatim>\<open>-1.0\<close>.
  \<^item> \<open>v_zero\<close>: the value of \<^verbatim>\<open>Vector()\<close>; \<open>v_of\<close>: \<^verbatim>\<open>Vector(t)\<close> of a tuple;
    \<open>v_tuple\<close>: \<^verbatim>\<open>tuple(v)\<close>.
  \<^item> \<open>v_add\<close>, \<open>v_sub\<close>: the sum and difference of two vectors; \<open>v_scale\<close>:
    \<^verbatim>\<open>float * vector\<close>; \<open>v_dot\<close>: \<^verbatim>\<open>v.dot(w)\<close>.
  \<^item> \<^verbatim>\<open>vector / float\<close> raises ZeroDivisionError for the floats of \<open>v_div_raises\<close>
    and is \<open>v_div\<close> otherwise.
  \<^item> \<open>v_normalize\<close>: the value \<^verbatim>\<open>normalize()\<close> leaves in the vector; it never raises.
\<close>

definition Vector_div :: "('f, 'v) arith \<Rightarrow> 'v \<Rightarrow> 'f \<Rightarrow> error + 'v" where
  "Vector_div ar a r = (if v_div_raises ar r then Inl ZeroDivisionError else Inr (v_div ar a r))"

subsection \<open>Vector objects\<close>

text \<open>
  A \<^verbatim>\<open>Vector\<close> is a mutable object: \<^verbatim>\<open>+=\<close>, \<^verbatim>\<open>-=\<close> and \<^verbatim>\<open>normalize()\<close> change
  the object they are applied to and every reference to it sees the change. The
  objects live in a store, addressed by numbers; a list of Vectors is a list of
  addresses. Vectors that are only read (the temporaries of an expression) are plain
  values.
\<close>

record 'v heap =
  cells :: "nat \<Rightarrow> 'v"
  fresh :: nat

definition empty_heap :: "('f, 'v) arith \<Rightarrow> 'v heap" where
  "empty_heap ar = \<lparr> cells = (\<lambda>_. v_zero ar), fresh = 0 \<rparr>"

text \<open>\<^verbatim>\<open>Vector()\<close>: a new zero vector.\<close>

definition Vector_new :: "('f, 'v) arith \<Rightarrow> 'v heap \<Rightarrow> 'v heap \<times> nat" where
  "Vector_new ar h =
     (\<lparr> cells = (cells h)(fresh h := v_zero ar), fresh = Suc (fresh h) \<rparr>, fresh h)"

definition Vector_iadd :: "('f, 'v) arith \<Rightarrow> 'v heap \<Rightarrow> nat \<Rightarrow> 'v \<Rightarrow> 'v heap" where
  "Vector_iadd ar h a v = h\<lparr> cells := (cells h)(a := v_add ar (cells h a) v) \<rparr>"

definition Vector_isub :: "('f, 'v) arith \<Rightarrow> 'v heap \<Rightarrow> nat \<Rightarrow> 'v \<Rightarrow> 'v heap" where
  "Vector_isub ar h a v = h\<lparr> cells := (cells h)(a := v_sub ar (cells h a) v) \<rparr>"

definition Vector_normalize :: "('f, 'v) arith \<Rightarrow> 'v heap \<Rightarrow> nat \<Rightarrow> 'v heap" where
  "Vector_normalize ar h a = h\<lparr> cells := (cells h)(a := v_normalize ar (cells h a)) \<rparr>"

subsection \<open>make\_tangents\<close>

type_synonym 'f tangent = "'f \<times> 'f \<times> 'f \<times> 'f"

text \<open>
  The accumulators: \<open>sdir\<close> and \<open>tdir\<close> are lists of Vector objects, so lists of
  addresses into the store.
\<close>

record 'v tstate =
  store :: "'v heap"
  sdir :: "nat list"
  tdir :: "nat list"

text \<open>
  \<^verbatim>\<open>sdir = [Vector()] * len(verts)\<close> and \<^verbatim>\<open>tdir = [Vector()] * len(verts)\<close>: each
  line evaluates \<^verbatim>\<open>Vector()\<close> once and repeats the reference to that one object.
\<close>

definition init_tstate :: "('f, 'v) arith \<Rightarrow> nat \<Rightarrow> 'v tstate" where
  "init_tstate ar n =
     (case Vector_new ar (empty_heap ar) of (h1, a) \<Rightarrow>
      case Vector_new ar h1 of (h2, b) \<Rightarrow>
        \<lparr> store = h2, sdir = replicate n a, tdir = replicate n b \<rparr>)"

text \<open>
  \<^verbatim>\<open>xs[i] += v\<close> on a list of Vectors: the object at \<^verbatim>\<open>xs[i]\<close> is added to in place
  and the same object is stored back at \<^verbatim>\<open>xs[i]\<close>.
\<close>

definition list_iadd ::
  "('f, 'v) arith \<Rightarrow> 'v heap \<Rightarrow> nat list \<Rightarrow> nat \<Rightarrow> 'v \<Rightarrow> error + ('v heap \<times> nat list)" where
  "list_iadd ar h xs i v =
     bind_err (py_index xs i) (\<lambda>a. Inr (Vector_iadd ar h a v, xs[i := a]))"

text \<open>The value a reader of \<^verbatim>\<open>xs[i]\<close> sees.\<close>

definition acc_value :: "'v heap \<Rightarrow> nat list \<Rightarrow> nat \<Rightarrow> 'v" where
  "acc_value h xs i = cells h (xs ! i)"

text \<open>The determinant \<^verbatim>\<open>r = s1 * t2 - s2 * t1\<close> of a triangle's uv edges.\<close>

definition uv_det :: "('f, 'v) arith \<Rightarrow> 'f \<times> 'f \<Rightarrow> 'f \<times> 'f \<Rightarrow> 'f \<times> 'f \<Rightarrow> 'f" where
  "uv_det ar w1 w2 w3 =
     (let s1 = f_sub ar (fst w2) (fst w1); s2 = f_sub ar (fst w3) (fst w1);
          t1 = f_sub ar (snd w2) (snd w1); t2 = f_sub ar (snd w3) (snd w1)
      in f_sub ar (f_mul ar s1 t2) (f_mul ar s2 t1))"

text \<open>The six accumulations at the end of the loop body.\<close>

definition accumulate ::
  "('f, 'v) arith \<Rightarrow> 'v tstate \<Rightarrow> index_tri \<Rightarrow> 'v \<Rightarrow> 'v \<Rightarrow> error + 'v tstate" where
  "accumulate ar st tri sd td =
     (case tri of (i0, i1, i2) \<Rightarrow>
        bind_err (list_iadd ar (store st) (sdir st) i0 sd) (\<lambda>(h1, s1).
        bind_err (list_iadd ar h1 s1 i1 sd) (\<lambda>(h2, s2).
        bind_err (list_iadd ar h2 s2 i2 sd) (\<lambda>(h3, s3).
        bind_err (list_iadd ar h3 (tdir st) i0 td) (\<lambda>(h4, t1).
        bind_err (list_iadd ar h4 t1 i1 td) (\<lambda>(h5, t2).
        bind_err (list_iadd ar h5 t2 i2 td) (\<lambda>(h6, t3).
          Inr \<lparr> store = h6, sdir = s3, tdir = t3 \<rparr>)))))))"

text \<open>The body of \<^verbatim>\<open>for tri in sm\<close>.\<close>

definition tri_step ::
  "('f, 'v) arith \<Rightarrow> ('f \<times> 'f \<times> 'f) list \<Rightarrow> ('f \<times> 'f) list \<Rightarrow> 'v tstate \<Rightarrow> index_tri \<Rightarrow>
     error + 'v tstate" where
  "tri_step ar verts uvs st tri =
     (case tri of (i0, i1, i2) \<Rightarrow>
        bind_err (py_index verts i0) (\<lambda>p1.
        bind_err (py_index verts i1) (\<lambda>p2.
        bind_err (py_index verts i2) (\<lambda>p3.
        bind_err (py_index uvs i0) (\<lambda>w1.
        bind_err (py_index uvs i1) (\<lambda>w2.
        bind_err (py_index uvs i2) (\<lambda>w3.
          let v1 = v_of ar p1; v2 = v_of ar p2; v3 = v_of ar p3;
              u1 = v_sub ar v2 v1; u2 = v_sub ar v3 v1;
              s1 = f_sub ar (fst w2) (fst w1); s2 = f_sub ar (fst w3) (fst w1);
              t1 = f_sub ar (snd w2) (snd w1); t2 = f_sub ar (snd w3) (snd w1);
              r = f_sub ar (f_mul ar s1 t2) (f_mul ar s2 t1)
          in if f_less ar (f_mul ar r r) (f_eps ar) then Inr st
             else
               bind_err (Vector_div ar (v_sub ar (v_scale ar t2 u1) (v_scale ar t1 u2)) r) (\<lambda>sd.
               bind_err (Vector_div ar (v_sub ar (v_scale ar s1 u2) (v_scale ar s2 u1)) r) (\<lambda>td.
                 accumulate ar st tri sd td)))))))))"

fun tri_loop ::
  "('f, 'v) arith \<Rightarrow> ('f \<times> 'f \<times> 'f) list \<Rightarrow> ('f \<times> 'f) list \<Rightarrow> 'v tstate \<Rightarrow> index_tri list \<Rightarrow>
     error + 'v tstate" where
  "tri_loop ar verts uvs st [] = Inr st"
| "tri_loop ar verts uvs st (tri # tris) =
     bind_err (tri_step ar verts uvs st tri) (\<lambda>st1. tri_loop ar verts uvs st1 tris)"

fun sm_loop ::
  "('f, 'v) arith \<Rightarrow> ('f \<times> 'f \<times> 'f) list \<Rightarrow> ('f \<times> 'f) list \<Rightarrow> 'v tstate \<Rightarrow>
     index_tri list list \<Rightarrow> error + 'v tstate" where
  "sm_loop ar verts uvs st [] = Inr st"
| "sm_loop ar verts uvs st (sm # sms) =
     bind_err (tri_loop ar verts uvs st sm) (\<lambda>st1. sm_loop ar verts uvs st1 sms)"

text \<open>
  The body of \<^verbatim>\<open>for i, n in enumerate(normals)\<close>. \<^verbatim>\<open>t = sdir[i]\<close> is a reference, and
  \<^verbatim>\<open>t -= ...\<close> and \<^verbatim>\<open>t.normalize()\<close> change the object it refers to.
\<close>

definition vertex_tangent ::
  "('f, 'v) arith \<Rightarrow> 'v tstate \<Rightarrow> nat \<Rightarrow> 'f \<times> 'f \<times> 'f \<Rightarrow> error + ('v tstate \<times> 'f tangent)" where
  "vertex_tangent ar st i n =
     bind_err (py_index (sdir st) i) (\<lambda>t.
       let h1 = Vector_isub ar (store st) t
                  (v_scale ar (v_dot ar (cells (store st) t) (v_of ar n)) (v_of ar n));
           h2 = Vector_normalize ar h1 t
       in bind_err (py_index (tdir st) i) (\<lambda>b.
            let hand = (if f_less ar (v_dot ar (cells h2 t) (cells h2 b)) (f_zero ar)
                        then f_neg_one ar else f_one ar)
            in case v_tuple ar (cells h2 t) of (x, y, z) \<Rightarrow>
                 Inr (st\<lparr> store := h2 \<rparr>, (x, y, z, hand))))"

fun normals_loop ::
  "('f, 'v) arith \<Rightarrow> 'v tstate \<Rightarrow> nat \<Rightarrow> ('f \<times> 'f \<times> 'f) list \<Rightarrow> error + 'f tangent list" where
  "normals_loop ar st i [] = Inr []"
| "normals_loop ar st i (n # ns) =
     bind_err (vertex_tangent ar st i n) (\<lambda>(st1, tn).
     bind_err (normals_loop ar st1 (Suc i) ns) (\<lambda>tns. Inr (tn # tns)))"

definition make_tangents ::
  "('f, 'v) arith \<Rightarrow> ('f \<times> 'f \<times> 'f) list \<Rightarrow> ('f \<times> 'f) list \<Rightarrow> ('f \<times> 'f \<times> 'f) list \<Rightarrow>
     index_tri list list \<Rightarrow> error + 'f tangent list" where
  "make_tangents ar verts uvs normals submeshes =
     bind_err (sm_loop ar verts uvs (init_tstate ar (length verts)) submeshes) (\<lambda>st.
       normals_loop ar st 0 normals)"

subsection \<open>Exact arithmetic\<close>

text \<open>
  One arithmetic to run the model on concrete inputs: real numbers and triples of
  them, without rounding. The program's own arithmetic agrees with it where nothing is
  rounded, as on the small integers and halves of the inputs below.
\<close>

definition vadd :: "vec3 \<Rightarrow> vec3 \<Rightarrow> vec3" where
  "vadd a b = (case a of (ax, ay, az) \<Rightarrow> case b of (bx, by, bz) \<Rightarrow> (ax + bx, ay + by, az + bz))"

definition vsub :: "vec3 \<Rightarrow> vec3 \<Rightarrow> vec3" where
  "vsub a b = (case a of (ax, ay, az) \<Rightarrow> case b of (bx, by, bz) \<Rightarrow> (ax - bx, ay - by, az - bz))"

definition vscale :: "real \<Rightarrow> vec3 \<Rightarrow> vec3" where
  "vscale k a = (case a of (ax, ay, az) \<Rightarrow> (k * ax, k * ay, k * az))"

definition vdot :: "vec3 \<Rightarrow> vec3 \<Rightarrow> real" where
  "vdot a b = (case a of (ax, ay, az) \<Rightarrow> case b of (bx, by, bz) \<Rightarrow> ax * bx + ay * by + az * bz)"

text \<open>\<^verbatim>\<open>normalize()\<close> scales a vector to length one, and zeroes a vector whose squared
  length is not above \<^verbatim>\<open>1e-35\<close>.\<close>

definition vnormalized :: "vec3 \<Rightarrow> vec3" where
  "vnormalized a =
     (if 1 / 10 ^ 35 < vdot a a then vscale (1 / sqrt (vdot a a)) a else (0, 0, 0))"

definition exact_arith :: "(real, vec3) arith" where
  "exact_arith =
     \<lparr> f_sub = (\<lambda>x y. x - y), f_mul = (\<lambda>x y. x * y), f_less = (\<lambda>x y. x < y),
       f_zero = 0, f_eps = 1 / 1000000, f_one = 1, f_neg_one = - 1,
       v_zero = (0, 0, 0), v_of = (\<lambda>t. t), v_tuple = (\<lambda>v. v),
       v_add = vadd, v_sub = vsub, v_scale = vscale,
       v_div_raises = (\<lambda>r. r = 0), v_div = (\<lambda>a r. vscale (1 / r) a),
       v_dot = vdot, v_normalize = vnormalized \<rparr>"

subsection \<open>make\_mesh\<close>

text \<open>
  Modelled from the spec: the class \<^verbatim>\<open>MuMesh\<close> of the module \<^verbatim>\<open>mu\<close>, which is not
  among the sources. The spec's RenderableMesh is a vertex stream (positions, normals,
  UV0, optional UV1, tangents) and a sequence of submeshes; it has no field for bone
  groups. \<open>mu_groups\<close> is the attribute \<^verbatim>\<open>groups\<close>, \<open>None\<close> while nothing has assigned
  it; \<^verbatim>\<open>make_mesh\<close> reads \<^verbatim>\<open>mumesh.uvs\<close> without having assigned it, so a new MuMesh
  has an empty one.
\<close>

record mumesh =
  mu_verts :: "vec3 list"
  mu_uvs :: "uv list"
  mu_uv2s :: "uv list"
  mu_normals :: "vec3 list"
  mu_tangents :: "real tangent list"
  mu_submeshes :: "index_tri list list"
  mu_groups :: "vgroup_elem list list option"

definition MuMesh :: mumesh where
  "MuMesh = \<lparr> mu_verts = [], mu_uvs = [], mu_uv2s = [], mu_normals = [], mu_tangents = [],
     mu_submeshes = [], mu_groups = None \<rparr>"

text \<open>
  The object handed to the handlers: \<open>obj_data\<close> is \<^verbatim>\<open>obj.data\<close>, \<open>obj_to_mesh\<close> the
  mesh that \<^verbatim>\<open>obj.to_mesh(...)\<close> returns, \<open>vertex_groups\<close> the names of
  \<^verbatim>\<open>obj.vertex_groups\<close>. Switching the modifiers off and on around \<^verbatim>\<open>to_mesh\<close> is the
  host's business and is not modelled.
\<close>

record object =
  obj_data :: mesh
  obj_to_mesh :: mesh
  vertex_groups :: "string list"

text \<open>\<^verbatim>\<open>list(map(f, xs))\<close> where \<open>f\<close> can raise.\<close>

fun map_err :: "('a \<Rightarrow> error + 'b) \<Rightarrow> 'a list \<Rightarrow> error + 'b list" where
  "map_err f [] = Inr []"
| "map_err f (x # xs) = bind_err (f x) (\<lambda>y. bind_err (map_err f xs) (\<lambda>ys. Inr (y # ys)))"

text \<open>The block under \<^verbatim>\<open>if uvs:\<close>; \<open>uvs\<close> has one tuple of uvs per vertex.\<close>

definition assign_uvs :: "mumesh \<Rightarrow> uv list list \<Rightarrow> error + mumesh" where
  "assign_uvs mm uvs =
     (if uvs \<noteq> [] then
        bind_err (if length uvs > 0
                  then bind_err (map_err (\<lambda>uv. py_index uv 0) uvs) (\<lambda>us. Inr (mm\<lparr> mu_uvs := us \<rparr>))
                  else Inr mm) (\<lambda>mm1.
          if length uvs > 1
          then bind_err (map_err (\<lambda>uv. py_index uv 1) uvs) (\<lambda>us. Inr (mm1\<lparr> mu_uv2s := us \<rparr>))
          else Inr mm1)
      else Inr mm)"

text \<open>
  \<^verbatim>\<open>make_mesh\<close> returns the MuMesh; the model also returns the mesh, whose attribute
  \<^verbatim>\<open>groups\<close> line 143 assigns. The coordinates of a mesh are modelled as reals; the
  arithmetic \<^verbatim>\<open>make_tangents\<close> applies to them is the parameter \<open>ar\<close>.
\<close>

definition make_mesh :: "(real, 'v) arith \<Rightarrow> object \<Rightarrow> error + (mumesh \<times> mesh)" where
  "make_mesh ar obj =
     (let m = obj_to_mesh obj
      in bind_err (make_tris m (build_submeshes m)) (\<lambda>tris.
         bind_err (make_verts m tris) (\<lambda>(vs, submeshes).
           let mm0 = MuMesh\<lparr> mu_verts := vs_verts vs, mu_normals := vs_normals vs \<rparr>;
               m' = m\<lparr> mesh_groups := Some (vs_groups vs) \<rparr>
           in bind_err (assign_uvs mm0 (vs_uvs vs)) (\<lambda>mm1.
                let mm2 = mm1\<lparr> mu_submeshes := submeshes \<rparr>
                in if mu_uvs mm2 \<noteq> []
                   then bind_err (make_tangents ar (mu_verts mm2) (mu_uvs mm2) (mu_normals mm2)
                                    (mu_submeshes mm2)) (\<lambda>ts.
                          Inr (mm2\<lparr> mu_tangents := ts \<rparr>, m'))
                   else Inr (mm2, m')))))"

subsection \<open>mesh\_materials and make\_renderer\<close>

text \<open>
  Modelled from the spec: the record that the material registry \<^verbatim>\<open>mu.materials\<close> keeps
  for a name (the spec's \<^verbatim>\<open>MaterialRecord{index, ...}\<close>); the class is in the module
  \<^verbatim>\<open>mu\<close>, which is not among the sources. \<^verbatim>\<open>make_material\<close>, of the module
  \<^verbatim>\<open>material\<close>, is not among them either: it is the parameter \<open>mk\<close> of the functions
  below, called with the registry and the material.
\<close>

record mumaterial =
  mat_index :: nat

type_synonym registry = "string \<rightharpoonup> mumaterial"

text \<open>
  The loop \<^verbatim>\<open>for mat in mesh.materials\<close>, with the registry and the local list
  \<^verbatim>\<open>materials\<close>.
\<close>

fun materials_loop ::
  "(registry \<Rightarrow> material \<Rightarrow> mumaterial) \<Rightarrow> registry \<Rightarrow> nat list \<Rightarrow> material list \<Rightarrow>
     registry \<times> nat list" where
  "materials_loop mk reg acc [] = (reg, acc)"
| "materials_loop mk reg acc (mat # mats) =
     (if shaderName mat \<noteq> []
      then (case reg (mat_name mat) of
              Some r \<Rightarrow> materials_loop mk reg (acc @ [mat_index r]) mats
            | None \<Rightarrow>
                let r = mk reg mat
                in materials_loop mk (reg(mat_name mat \<mapsto> r)) (acc @ [mat_index r]) mats)
      else materials_loop mk reg acc mats)"

text \<open>
  \<^verbatim>\<open>mesh_materials\<close> ends after its loop, without a \<^verbatim>\<open>return\<close>: the call evaluates to
  Python's \<^verbatim>\<open>None\<close>, here \<open>None\<close>, and the list the loop built is dropped.
\<close>

definition mesh_materials ::
  "(registry \<Rightarrow> material \<Rightarrow> mumaterial) \<Rightarrow> registry \<Rightarrow> mesh \<Rightarrow> registry \<times> nat list option" where
  "mesh_materials mk reg m =
     (case materials_loop mk reg [] (materials m) of (reg', mats) \<Rightarrow> (reg', None))"

text \<open>Modelled from the spec: the class \<^verbatim>\<open>MuRenderer\<close> of the module \<^verbatim>\<open>mu\<close>, by the one
  attribute the source assigns.\<close>

record murenderer =
  rend_materials :: "nat list option"

text \<open>Python's truth value of \<^verbatim>\<open>None\<close> and of a list.\<close>

fun truthy :: "'a list option \<Rightarrow> bool" where
  "truthy None = False"
| "truthy (Some []) = False"
| "truthy (Some (x # xs)) = True"

definition make_renderer ::
  "(registry \<Rightarrow> material \<Rightarrow> mumaterial) \<Rightarrow> registry \<Rightarrow> mesh \<Rightarrow> registry \<times> murenderer option" where
  "make_renderer mk reg m =
     (case mesh_materials mk reg m of (reg', mats) \<Rightarrow>
        let rend = \<lparr> rend_materials = mats \<rparr>
        in if \<not> truthy (rend_materials rend) then (reg', None) else (reg', Some rend))"

subsection \<open>mesh\_bones\<close>

text \<open>
  The loop \<^verbatim>\<open>for grp in obj.vertex_groups\<close>, with the list \<^verbatim>\<open>bones\<close> and the dict
  \<^verbatim>\<open>boneindices\<close>; \<open>boneset\<close> is the list of the armature's bone names.
\<close>

fun bones_loop ::
  "string list \<Rightarrow> string list \<times> (string \<rightharpoonup> nat) \<Rightarrow> string list \<Rightarrow>
     string list \<times> (string \<rightharpoonup> nat)" where
  "bones_loop boneset bb [] = bb"
| "bones_loop boneset bb (g # gs) =
     (if g \<in> set boneset
      then bones_loop boneset (fst bb @ [g], (snd bb)(g \<mapsto> length (fst bb))) gs
      else bones_loop boneset bb gs)"

text \<open>\<^verbatim>\<open>for i in n\<close> with an int \<open>n\<close>: an int is not iterable.\<close>

definition iter_int :: "nat \<Rightarrow> error + nat list" where
  "iter_int n = Inl TypeError"

text \<open>The body of \<^verbatim>\<open>for i in ...\<close>, over the indices the iteration yields.\<close>

fun weights_loop ::
  "string list \<Rightarrow> (string \<rightharpoonup> nat) \<Rightarrow> vgroup_elem list \<Rightarrow> (nat \<times> real) list \<Rightarrow> nat list \<Rightarrow>
     error + (nat \<times> real) list" where
  "weights_loop vgs boneindices vgrp weights [] = Inr weights"
| "weights_loop vgs boneindices vgrp weights (i # is) =
     bind_err (py_index vgrp i) (\<lambda>e.
     bind_err (py_index vgs (group e)) (\<lambda>gname.
       case boneindices gname of
         Some b \<Rightarrow> weights_loop vgs boneindices vgrp (weights @ [(b, weight e)]) is
       | None \<Rightarrow> weights_loop vgs boneindices vgrp weights is))"

text \<open>
  The body of \<^verbatim>\<open>for vgrp in mumesh.groups\<close>. \<^verbatim>\<open>weights.sort(key=...)\<close> is a stable
  ascending sort, as \<open>sort_key\<close> is. \<^verbatim>\<open>[(0,0)]*4 - len(weights)\<close> subtracts an int from
  a list, a TypeError. The result is printed, not kept.
\<close>

definition vertex_weights ::
  "string list \<Rightarrow> (string \<rightharpoonup> nat) \<Rightarrow> vgroup_elem list \<Rightarrow> error + (nat \<times> real) list" where
  "vertex_weights vgs boneindices vgrp =
     bind_err (iter_int (length vgrp)) (\<lambda>is.
     bind_err (weights_loop vgs boneindices vgrp [] is) (\<lambda>weights.
       let sorted_weights = rev (sort_key snd weights)
       in if length sorted_weights < 4 then Inl TypeError else Inr sorted_weights))"

definition mesh_bones :: "object \<Rightarrow> mumesh \<Rightarrow> string list \<Rightarrow> error + string list" where
  "mesh_bones obj mm armature =
     (case bones_loop armature ([], Map.empty) (vertex_groups obj) of (bones, boneindices) \<Rightarrow>
        (case mu_groups mm of
           None \<Rightarrow> Inl AttributeError
         | Some gs \<Rightarrow>
             bind_err (map_err (vertex_weights (vertex_groups obj) boneindices) gs) (\<lambda>tables.
               Inr bones)))"

subsection \<open>The handlers\<close>

record skinned_renderer =
  smr_mesh :: mumesh
  smr_bones :: "string list"
  smr_materials :: "nat list option"

record muobject =
  shared_mesh :: "mumesh option"
  renderer :: "murenderer option"
  skinned_mesh_renderer :: "skinned_renderer option"

definition handle_mesh ::
  "(registry \<Rightarrow> material \<Rightarrow> mumaterial) \<Rightarrow> (real, 'v) arith \<Rightarrow> object \<Rightarrow> muobject \<Rightarrow>
     registry \<Rightarrow> error + (muobject \<times> registry)" where
  "handle_mesh mk ar obj muobj reg =
     bind_err (make_mesh ar obj) (\<lambda>(mm, m').
       case make_renderer mk reg (obj_data obj) of (reg', rend) \<Rightarrow>
         Inr (muobj\<lparr> shared_mesh := Some mm, renderer := rend \<rparr>, reg'))"

text \<open>
  The names bound in the module's namespace once it is loaded: the imports of lines 22
  to 30 and the module's own definitions.
\<close>

definition module_globals :: "string list" where
  "module_globals =
     [''bpy'', ''Vector'', ''MuMesh'', ''MuRenderer'', ''collect_modifiers'', ''make_material'',
      ''export'', ''split_face'', ''build_submeshes'', ''make_tris'', ''make_verts'',
      ''make_tangents'', ''make_mesh'', ''mesh_materials'', ''make_renderer'', ''mesh_bones'',
      ''handle_mesh'', ''handle_skinned_mesh'', ''type_handlers'']"

text \<open>Reading a global name: NameError when the module does not bind it.\<close>

definition load_global :: "string \<Rightarrow> error + unit" where
  "load_global name = (if name \<in> set module_globals then Inr () else Inl (NameError name))"

definition handle_skinned_mesh ::
  "(registry \<Rightarrow> material \<Rightarrow> mumaterial) \<Rightarrow> (real, 'v) arith \<Rightarrow> object \<Rightarrow> muobject \<Rightarrow>
     registry \<Rightarrow> string list \<Rightarrow> error + (muobject \<times> registry)" where
  "handle_skinned_mesh mk ar obj muobj reg armature =
     bind_err (load_global ''MuSkinnedMeshRenderer'') (\<lambda>_.
     bind_err (make_mesh ar obj) (\<lambda>(mm, m').
     bind_err (mesh_bones obj mm armature) (\<lambda>bones.
       case mesh_materials mk reg (obj_data obj) of (reg', mats) \<Rightarrow>
         Inr (muobj\<lparr> skinned_mesh_renderer :=
                      Some \<lparr> smr_mesh = mm, smr_bones = bones, smr_materials = mats \<rparr>,
                    renderer := None, shared_mesh := None \<rparr>, reg'))))"

subsection \<open>Notions the properties are stated with\<close>

text \<open>Corner \<open>j\<close> of a face, as \<^verbatim>\<open>split_face\<close> builds it: the vertex index and the uv of
  loop \<open>j\<close> of the face in every layer.\<close>

definition corner_of :: "mesh \<Rightarrow> polygon \<Rightarrow> nat \<Rightarrow> corner" where
  "corner_of m face j = (vertices face ! j, map (\<lambda>l. l ! j) (face_uv m face))"

text \<open>The corners of a submesh in order, three per triangle.\<close>

definition tri_list :: "'a \<times> 'a \<times> 'a \<Rightarrow> 'a list" where
  "tri_list t = (case t of (a, b, c) \<Rightarrow> [a, b, c])"

definition flat :: "('a \<times> 'a \<times> 'a) list \<Rightarrow> 'a list" where
  "flat sm = concat (map tri_list sm)"

text \<open>The four lists of a vertex stream have one length.\<close>

definition wf_stream :: "vstream \<Rightarrow> bool" where
  "wf_stream vs \<longleftrightarrow> length (vs_uvs vs) = length (vs_verts vs) \<and>
     length (vs_normals vs) = length (vs_verts vs) \<and> length (vs_groups vs) = length (vs_verts vs)"

text \<open>
  What holds of \<^verbatim>\<open>vuvdict\<close> while a submesh is processed: if \<open>n0\<close> vertices were in
  the stream when the submesh began and \<open>n\<close> are in it now, the dict maps its keys
  one-to-one onto the indices from \<open>n0\<close> up to \<open>n\<close>.
\<close>

definition dict_ok :: "nat \<Rightarrow> nat \<Rightarrow> ('k \<rightharpoonup> nat) \<Rightarrow> bool" where
  "dict_ok n0 n d \<longleftrightarrow>
     (\<forall>k i. d k = Some i \<longrightarrow> n0 \<le> i \<and> i < n) \<and>
     (\<forall>k k' i. d k = Some i \<longrightarrow> d k' = Some i \<longrightarrow> k = k') \<and>
     finite (dom d) \<and> n0 + card (dom d) = n"

definition dict_inv :: "nat \<Rightarrow> vstream \<times> vuvdict \<Rightarrow> bool" where
  "dict_inv n0 sd \<longleftrightarrow> wf_stream (fst sd) \<and> dict_ok n0 (length (vs_verts (fst sd))) (snd sd)"

text \<open>
  What one submesh's pass leaves behind: the corners \<open>ks\<close> of the submesh got the
  indices \<open>js\<close>, all from \<open>lo\<close> up to \<open>hi\<close>, equal exactly for equal corners, and
  one new vertex per distinct corner.
\<close>

definition block_ok :: "nat \<Rightarrow> nat \<Rightarrow> 'k list \<Rightarrow> nat list \<Rightarrow> bool" where
  "block_ok lo hi ks js \<longleftrightarrow> length js = length ks \<and>
     (\<forall>p<length ks. lo \<le> js ! p \<and> js ! p < hi) \<and>
     (\<forall>p<length ks. \<forall>q<length ks. (js ! p = js ! q) = (ks ! p = ks ! q)) \<and>
     hi = lo + card (set ks)"

text \<open>The length of the vertex stream when submesh \<open>j\<close> begins, if it was \<open>n\<close> at
  the start.\<close>

definition offs :: "nat \<Rightarrow> corner_tri list list \<Rightarrow> nat \<Rightarrow> nat" where
  "offs n sms j = n + sum_list (map (\<lambda>sm. card (set (flat sm))) (take j sms))"

text \<open>The contract of \<^verbatim>\<open>make_verts\<close>: every corner names a vertex of the mesh.\<close>

definition corners_valid :: "mesh \<Rightarrow> corner_tri list list \<Rightarrow> bool" where
  "corners_valid m sms =
     list_all (\<lambda>sm. list_all (\<lambda>k. fst k < length (mesh_vertices m)) (flat sm)) sms"

text \<open>The two accumulator lists have \<open>n\<close> entries.\<close>

definition tstate_ok :: "nat \<Rightarrow> 'v tstate \<Rightarrow> bool" where
  "tstate_ok n st \<longleftrightarrow> length (sdir st) = n \<and> length (tdir st) = n"

text \<open>The contract of \<^verbatim>\<open>make_tangents\<close>: every index of every triangle is an index into
  the vertex stream.\<close>

definition tri_valid :: "nat \<Rightarrow> index_tri \<Rightarrow> bool" where
  "tri_valid n tri = list_all (\<lambda>i. i < n) (tri_list tri)"

definition tris_valid :: "nat \<Rightarrow> index_tri list list \<Rightarrow> bool" where
  "tris_valid n sms = list_all (list_all (tri_valid n)) sms"

text \<open>The test under which the loop body skips a triangle, \<^verbatim>\<open>r * r < 1e-6\<close>, in the
  arithmetic of the program.\<close>

definition degenerate :: "('f, 'v) arith \<Rightarrow> ('f \<times> 'f) list \<Rightarrow> index_tri \<Rightarrow> bool" where
  "degenerate ar uvs tri =
     (case tri of (i0, i1, i2) \<Rightarrow>
        f_less ar (f_mul ar (uv_det ar (uvs ! i0) (uvs ! i1) (uvs ! i2))
                            (uv_det ar (uvs ! i0) (uvs ! i1) (uvs ! i2))) (f_eps ar))"

text \<open>
  What the proofs need of the arithmetic: a float for which \<^verbatim>\<open>vector / float\<close> raises,
  a zero, has a square below \<^verbatim>\<open>1e-6\<close>. It holds of IEEE arithmetic, where the square
  of a zero is zero.
\<close>

definition div_safe :: "('f, 'v) arith \<Rightarrow> bool" where
  "div_safe ar \<longleftrightarrow> (\<forall>r. v_div_raises ar r \<longrightarrow> f_less ar (f_mul ar r r) (f_eps ar))"

text \<open>
  The value of a vertex's tangent vector after \<^verbatim>\<open>t -= t.dot(n) * Vector(n)\<close> and
  \<^verbatim>\<open>t.normalize()\<close>, from the value \<open>s\<close> it had before and the normal \<open>n\<close>.
\<close>

definition orthonormalized :: "('f, 'v) arith \<Rightarrow> 'v \<Rightarrow> 'f \<times> 'f \<times> 'f \<Rightarrow> 'v" where
  "orthonormalized ar s n =
     v_normalize ar (v_sub ar s (v_scale ar (v_dot ar s (v_of ar n)) (v_of ar n)))"

text \<open>
  The tangent entry for a tangent vector \<open>t\<close> and an accumulated \<open>tdir\<close> of value \<open>td\<close>:
  the components of \<open>t\<close>, then \<^verbatim>\<open>-1.0\<close> if \<open>t \<cdot> td < 0\<close> and \<^verbatim>\<open>1.0\<close> otherwise.
\<close>

definition tangent_entry :: "('f, 'v) arith \<Rightarrow> 'v \<Rightarrow> 'v \<Rightarrow> 'f tangent" where
  "tangent_entry ar t td =
     (case v_tuple ar t of (x, y, z) \<Rightarrow>
        (x, y, z, if f_less ar (v_dot ar t td) (f_zero ar) then f_neg_one ar else f_one ar))"

text \<open>
  The tangent vector of vertex \<open>i\<close> when the entries of \<open>sdir\<close> are one object of value
  \<open>s\<close>: the object has been orthogonalised and normalised against the normals of the
  vertices \<open>0\<close> to \<open>i\<close>, in this order.
\<close>

definition tangent_at :: "('f, 'v) arith \<Rightarrow> 'v \<Rightarrow> ('f \<times> 'f \<times> 'f) list \<Rightarrow> nat \<Rightarrow> 'v" where
  "tangent_at ar s ns i = fold (\<lambda>n t. orthonormalized ar t n) (take (Suc i) ns) s"

text \<open>All entries of \<open>sdir\<close> are the object at address 0, all entries of \<open>tdir\<close> the object
  at address 1.\<close>

definition shared_acc :: "nat \<Rightarrow> 'v tstate \<Rightarrow> bool" where
  "shared_acc n st \<longleftrightarrow> sdir st = replicate n 0 \<and> tdir st = replicate n 1"

subsection \<open>Concrete inputs\<close>

text \<open>A single quad on four vertices, with one uv layer and four distinct corner uvs.\<close>

definition quad_mesh :: mesh where
  "quad_mesh = \<lparr> polygons = [\<lparr> vertices = [0, 1, 2, 3], loop_start = 0, loop_total = 4 \<rparr>],
     mesh_vertices = [\<lparr> co = (0, 0, 0), normal = (0, 0, 1), groups = [] \<rparr>,
                      \<lparr> co = (1, 0, 0), normal = (0, 0, 1), groups = [] \<rparr>,
                      \<lparr> co = (1, 1, 0), normal = (0, 0, 1), groups = [] \<rparr>,
                      \<lparr> co = (0, 1, 0), normal = (0, 0, 1), groups = [] \<rparr>],
     uv_layers = [[(0, 0), (1, 0), (1, 1), (0, 1)]], materials = [],
     mesh_groups = None \<rparr>"

text \<open>The two triangles of the quad: (0, 1, 2) and (0, 2, 3), with their uvs.\<close>

definition quad_tris :: "corner_tri list" where
  "quad_tris = [((0, [(0, 0)]), (1, [(1, 0)]), (2, [(1, 1)])),
                ((0, [(0, 0)]), (2, [(1, 1)]), (3, [(0, 1)]))]"

text \<open>The first triangle of the quad, and what the counterexamples read off a result of
  \<^verbatim>\<open>make_verts\<close>: the number of vertices and the rewritten submeshes.\<close>

definition quad_tri0 :: corner_tri where
  "quad_tri0 = ((0, [(0, 0)]), (1, [(1, 0)]), (2, [(1, 1)]))"

definition verts_and_submeshes ::
  "error + (vstream \<times> index_tri list list) \<Rightarrow> error + (nat \<times> index_tri list list)" where
  "verts_and_submeshes r = map_sum id (\<lambda>(vs, sms'). (length (vs_verts vs), sms')) r"

text \<open>The vertex stream of the quad.\<close>

definition quad_stream :: vstream where
  "quad_stream = \<lparr> vs_verts = [(0, 0, 0), (1, 0, 0), (1, 1, 0), (0, 1, 0)],
     vs_normals = [(0, 0, 1), (0, 0, 1), (0, 0, 1), (0, 0, 1)],
     vs_uvs = [[(0, 0)], [(1, 0)], [(1, 1)], [(0, 1)]],
     vs_groups = [[], [], [], []] \<rparr>"

text \<open>
  Six vertices and two triangles. The triangle (0, 1, 2) has a uv mapping of non-zero
  area; the triangle (3, 4, 5) is the spec's flat triangle whose three corners have the
  same uv, and the vertices 3, 4, 5 belong to no other triangle.
\<close>

definition six_verts :: "vec3 list" where
  "six_verts = [(0, 0, 0), (1, 0, 0), (0, 1, 0), (2, 0, 0), (3, 0, 0), (2, 1, 0)]"

definition six_uvs :: "uv list" where
  "six_uvs = [(0, 0), (1, 0), (1, 1), (1 / 2, 1 / 2), (1 / 2, 1 / 2), (1 / 2, 1 / 2)]"

definition six_normals :: "vec3 list" where
  "six_normals = [(0, 0, 1), (0, 0, 1), (0, 0, 1), (0, 0, 1), (0, 0, 1), (0, 0, 1)]"

definition six_tris :: "index_tri list list" where
  "six_tris = [[(0, 1, 2), (3, 4, 5)]]"

text \<open>What the witness reads off a result of \<^verbatim>\<open>make_tangents\<close>: the number of tangents
  and the tangents of the vertices 0 and 3.\<close>

definition tangents_0_3 ::
  "error + real tangent list \<Rightarrow> error + (nat \<times> real tangent \<times> real tangent)" where
  "tangents_0_3 r = map_sum id (\<lambda>ts. (length ts, ts ! 0, ts ! 3)) r"

text \<open>Layer 0 of the quad's uvs, per vertex.\<close>

definition quad_uv0 :: "uv list" where
  "quad_uv0 = [(0, 0), (1, 0), (1, 1), (0, 1)]"

text \<open>A mesh with one material slot that has a shader, and a \<^verbatim>\<open>make_material\<close> that
  gives every record the index 7.\<close>

definition shaded_mesh :: mesh where
  "shaded_mesh = \<lparr> polygons = [], mesh_vertices = [], uv_layers = [],
     materials = [\<lparr> mat_name = ''hull'', shaderName = ''KSP/Diffuse'' \<rparr>], mesh_groups = None \<rparr>"

definition number_seven :: "registry \<Rightarrow> material \<Rightarrow> mumaterial" where
  "number_seven reg mat = \<lparr> mat_index = 7 \<rparr>"

text \<open>The spec's skinning scenario: groups A, B, C, of which A and B are bones, and one
  vertex with the memberships (A, 0.7), (B, 0.2), (C, 0.1).\<close>

definition skinned_object :: object where
  "skinned_object = \<lparr> obj_data = shaded_mesh, obj_to_mesh = shaded_mesh,
     vertex_groups = [''A'', ''B'', ''C''] \<rparr>"

definition skinned_mumesh :: mumesh where
  "skinned_mumesh = MuMesh\<lparr> mu_groups := Some [[\<lparr> group = 0, weight = 7 / 10 \<rparr>,
     \<lparr> group = 1, weight = 2 / 10 \<rparr>, \<lparr> group = 2, weight = 1 / 10 \<rparr>]] \<rparr>"

text \<open>Four vertices; the triangle (0, 1, 2) has a non-degenerate uv mapping and vertex 3
  belongs to no triangle.\<close>

definition four_verts :: "vec3 list" where
  "four_verts = [(0, 0, 0), (1, 0, 0), (0, 1, 0), (5, 5, 5)]"

definition four_uvs :: "uv list" where
  "four_uvs = [(0, 0), (1, 0), (0, 1), (0, 0)]"

text \<open>
  An object whose mesh is one triangle with two uv layers; vertex 0 belongs to the vertex
  group A. All uvs of layer 0 coincide, so the tangents are the fallback. Then the
  MuMesh and the bone-group references that \<^verbatim>\<open>make_mesh\<close> produces for it.
\<close>

definition tri_object :: object where
  "tri_object = \<lparr> obj_data = shaded_mesh,
     obj_to_mesh = \<lparr> polygons = [\<lparr> vertices = [0, 1, 2], loop_start = 0, loop_total = 3 \<rparr>],
       mesh_vertices = [\<lparr> co = (0, 0, 0), normal = (0, 0, 1), groups = [\<lparr> group = 0, weight = 1 \<rparr>] \<rparr>,
                        \<lparr> co = (1, 0, 0), normal = (0, 0, 1), groups = [] \<rparr>,
                        \<lparr> co = (0, 1, 0), normal = (0, 0, 1), groups = [] \<rparr>],
       uv_layers = [[(0, 0), (0, 0), (0, 0)], [(0, 0), (1, 0), (0, 1)]],
       materials = [], mesh_groups = None \<rparr>,
     vertex_groups = [''A''] \<rparr>"

definition tri_mumesh :: mumesh where
  "tri_mumesh = \<lparr> mu_verts = [(0, 0, 0), (1, 0, 0), (0, 1, 0)],
     mu_uvs = [(0, 0), (0, 0), (0, 0)], mu_uv2s = [(0, 0), (1, 0), (0, 1)],
     mu_normals = [(0, 0, 1), (0, 0, 1), (0, 0, 1)],
     mu_tangents = [(0, 0, 0, 1), (0, 0, 0, 1), (0, 0, 0, 1)],
     mu_submeshes = [[(0, 1, 2)]], mu_groups = None \<rparr>"

definition tri_groups :: "vgroup_elem list list" where
  "tri_groups = [[\<lparr> group = 0, weight = 1 \<rparr>], [], []]"

section \<open>Properties\<close>

subsection \<open>split\_face\<close>

lemma face_corner_ok:
  "j < length fv \<Longrightarrow> list_all (\<lambda>l. j < length l) uv \<Longrightarrow>
   face_corner fv uv j = Inr (fv ! j, map (\<lambda>l. l ! j) uv)"
  by (simp add: face_corner_def py_index_def uv_corner_def bind_err_def)

lemma fan_loop_ok:
  assumes "list_all (\<lambda>l. length fv \<le> length l) uv"
  shows "list_all (\<lambda>i. i + 1 < length fv) js \<Longrightarrow>
    fan_loop fv uv js =
      Inr (map (\<lambda>i. ((fv ! 0, map (\<lambda>l. l ! 0) uv), (fv ! i, map (\<lambda>l. l ! i) uv),
                     (fv ! (i + 1), map (\<lambda>l. l ! (i + 1)) uv))) js)"
proof (induction js)
  case Nil
  show ?case by simp
next
  case (Cons i js)
  from Cons.prems have i: "i + 1 < length fv" by simp
  have lay: "\<And>j. j < length fv \<Longrightarrow> list_all (\<lambda>l. j < length l) uv"
    using assms by (auto simp: list_all_iff)
  have c0: "face_corner fv uv 0 = Inr (fv ! 0, map (\<lambda>l. l ! 0) uv)"
  proof (rule face_corner_ok)
    show "0 < length fv" using i by (cases fv) auto
    then show "list_all (\<lambda>l. 0 < length l) uv" by (rule lay)
  qed
  have c1: "face_corner fv uv i = Inr (fv ! i, map (\<lambda>l. l ! i) uv)"
    using i lay by (intro face_corner_ok) auto
  have c2: "face_corner fv uv (i + 1) = Inr (fv ! (i + 1), map (\<lambda>l. l ! (i + 1)) uv)"
    using i lay by (intro face_corner_ok) auto
  from Cons have rest: "fan_loop fv uv js =
      Inr (map (\<lambda>i. ((fv ! 0, map (\<lambda>l. l ! 0) uv), (fv ! i, map (\<lambda>l. l ! i) uv),
                     (fv ! (i + 1), map (\<lambda>l. l ! (i + 1)) uv))) js)" by simp
  show ?case by (simp add: c0 c1 c2 rest bind_err_def del: One_nat_def)
qed

lemma quad_mesh_split: "split_face quad_mesh 0 = Inr quad_tris"
  by (simp add: split_face_def quad_mesh_def py_index_def bind_err_def face_uv_def
      face_corner_def uv_corner_def upt_rec quad_tris_def)

text \<open>
  C7, as the code has it. For a face with \<open>N \<ge> 3\<close> vertices whose uv layers have a uv
  for each of its loops, \<^verbatim>\<open>split_face\<close> returns exactly \<open>N - 2\<close> triangles, and the
  triangle that the loop index \<open>i\<close> in \<open>1..N-2\<close> produces, the \<open>i\<close>-th of the result, is
  (corner 0, corner \<open>i\<close>, corner \<open>i+1\<close>): every triangle starts at corner 0 and keeps the
  winding of the face.
\<close>

theorem split_face_fan:
  assumes "index < length (polygons m)"
    and "face = polygons m ! index"
    and "3 \<le> length (vertices face)"
    and "list_all (\<lambda>l. length (vertices face) \<le> length l) (face_uv m face)"
  shows "\<exists>tris. split_face m index = Inr tris \<and> length tris = length (vertices face) - 2 \<and>
     (\<forall>i. 1 \<le> i \<and> i \<le> length (vertices face) - 2 \<longrightarrow>
        tris ! (i - 1) = (corner_of m face 0, corner_of m face i, corner_of m face (i + 1)))"
proof -
  let ?fv = "vertices face" and ?uv = "face_uv m face"
  have js: "list_all (\<lambda>i. i + 1 < length ?fv) [1 ..< length ?fv - 1]"
    by (auto simp: list_all_iff)
  have sf: "split_face m index = fan_loop ?fv ?uv [1 ..< length ?fv - 1]"
    using assms(1,2) by (simp add: split_face_def py_index_def bind_err_def Let_def)
  note fl = fan_loop_ok [OF assms(4) js]
  show ?thesis
    unfolding sf fl using assms(3)
    by (auto simp: corner_of_def nth_append simp del: upt_Suc)
qed

text \<open>
  Witness for C7: the quad (0, 1, 2, 3) with one uv layer yields the two triangles
  (0, 1, 2) and (0, 2, 3).
\<close>

theorem split_face_fan_witness:
  "0 < length (polygons quad_mesh) \<and> 3 \<le> length (vertices (polygons quad_mesh ! 0)) \<and>
   split_face quad_mesh 0 = Inr quad_tris"
proof -
  let ?face = "polygons quad_mesh ! 0"
  have h1: "0 < length (polygons quad_mesh)" by (simp add: quad_mesh_def)
  have h3: "3 \<le> length (vertices ?face)" by (simp add: quad_mesh_def)
  have h4: "list_all (\<lambda>l. length (vertices ?face) \<le> length l) (face_uv quad_mesh ?face)"
    by (simp add: quad_mesh_def face_uv_def)
  from split_face_fan [OF h1 refl h3 h4] obtain tris where
    t: "split_face quad_mesh 0 = Inr tris" and len: "length tris = length (vertices ?face) - 2"
    and nth: "\<And>i. 1 \<le> i \<and> i \<le> length (vertices ?face) - 2 \<Longrightarrow>
        tris ! (i - 1) = (corner_of quad_mesh ?face 0, corner_of quad_mesh ?face i,
                          corner_of quad_mesh ?face (i + 1))"
    by blast
  have l2: "length tris = 2" using len by (simp add: quad_mesh_def)
  have n: "length (vertices ?face) - 2 = 2" by (simp add: quad_mesh_def)
  have t0: "tris ! 0 = quad_tris ! 0"
    using nth [of 1] unfolding n
    by (simp add: corner_of_def quad_mesh_def face_uv_def quad_tris_def)
  have t1: "tris ! 1 = quad_tris ! 1"
    using nth [of 2] unfolding n
    by (simp add: corner_of_def quad_mesh_def face_uv_def quad_tris_def)
  have "tris = [tris ! 0, tris ! 1]"
    using l2 by (cases tris; cases "tl tris") auto
  with t0 t1 have "tris = quad_tris" by (simp add: quad_tris_def)
  with t h1 h3 show ?thesis by simp
qed

text \<open>
  Counterexample for C7 as the claim words it, "triangle \<open>i\<close> is (corner 0, corner
  \<open>i+1\<close>, corner \<open>i+2\<close>) for \<open>i\<close> in \<open>1..len-2\<close>": on the quad the triangle of \<open>i = 1\<close>
  is (corner 0, corner 1, corner 2), not (corner 0, corner 2, corner 3); and if the
  triangles are counted from 0 instead, there is no triangle number \<open>len - 2 = 2\<close>.
\<close>

theorem split_face_formula_counterexample:
  "split_face quad_mesh 0 = Inr quad_tris \<and>
   quad_tris ! (1 - 1) \<noteq>
     (corner_of quad_mesh (polygons quad_mesh ! 0) 0,
      corner_of quad_mesh (polygons quad_mesh ! 0) (1 + 1),
      corner_of quad_mesh (polygons quad_mesh ! 0) (1 + 2)) \<and>
   \<not> (4 - 2 < length quad_tris)"
  by (simp add: quad_mesh_split) (simp add: corner_of_def quad_mesh_def face_uv_def quad_tris_def)

subsection \<open>make\_renderer\<close>

text \<open>
  C1, the code at a failing input. The mesh has one material slot with a non-empty
  shader assignment; the loop of \<^verbatim>\<open>mesh_materials\<close> collects the registry index 7 for
  it, yet \<^verbatim>\<open>mesh_materials\<close> returns \<^verbatim>\<open>None\<close> and \<^verbatim>\<open>make_renderer\<close> returns no
  renderer.
\<close>

theorem make_renderer_drops_materials:
  "snd (materials_loop number_seven Map.empty [] (materials shaded_mesh)) = [7] \<and>
   snd (mesh_materials number_seven Map.empty shaded_mesh) = None \<and>
   snd (make_renderer number_seven Map.empty shaded_mesh) = None"
  by (simp add: make_renderer_def mesh_materials_def shaded_mesh_def number_seven_def)

subsection \<open>mesh\_bones\<close>

text \<open>
  C2, the code at a failing input. For the vertex with the memberships (A, 0.7),
  (B, 0.2), (C, 0.1), where A and B are bones, \<^verbatim>\<open>mesh_bones\<close> raises TypeError at
  \<^verbatim>\<open>for i in len(vgrp)\<close> and produces no BoneWeight table.
\<close>

theorem mesh_bones_raises:
  "mesh_bones skinned_object skinned_mumesh [''A'', ''B''] = Inl TypeError"
  by (simp add: mesh_bones_def skinned_object_def skinned_mumesh_def MuMesh_def
      vertex_weights_def iter_int_def bind_err_def split: prod.splits)

subsection \<open>handle\_skinned\_mesh\<close>

text \<open>
  C5. For every input \<^verbatim>\<open>handle_skinned_mesh\<close> raises NameError for
  \<^verbatim>\<open>MuSkinnedMeshRenderer\<close>, a name the module neither defines nor imports; it never
  returns a skinned mesh.
\<close>

theorem handle_skinned_mesh_NameError:
  "handle_skinned_mesh mk ar obj muobj reg armature = Inl (NameError ''MuSkinnedMeshRenderer'')"
  by (simp add: handle_skinned_mesh_def load_global_def module_globals_def bind_err_def)

subsection \<open>make\_verts\<close>

lemma flat_Nil [simp]: "flat [] = []"
  by (simp add: flat_def)

lemma flat_Cons [simp]: "flat ((a, b, c) # sm) = a # b # c # flat sm"
  by (simp add: flat_def tri_list_def)

lemma dict_ok_empty: "dict_ok n n Map.empty"
  by (simp add: dict_ok_def)

lemma dict_ok_update:
  assumes ok: "dict_ok n0 n d" and none: "d k = None"
  shows "dict_ok n0 (Suc n) (d(k \<mapsto> n))"
proof -
  from ok have bnd: "\<And>k i. d k = Some i \<Longrightarrow> n0 \<le> i \<and> i < n"
    and inj: "\<And>k k' i. d k = Some i \<Longrightarrow> d k' = Some i \<Longrightarrow> k = k'"
    and fin: "finite (dom d)" and crd: "n0 + card (dom d) = n"
    unfolding dict_ok_def by blast+
  have knd: "k \<notin> dom d" using none by (simp add: dom_def)
  have b': "\<And>k' i. (d(k \<mapsto> n)) k' = Some i \<Longrightarrow> n0 \<le> i \<and> i < Suc n"
  proof -
    fix k' i assume a: "(d(k \<mapsto> n)) k' = Some i"
    show "n0 \<le> i \<and> i < Suc n"
    proof (cases "k' = k")
      case True
      with a have "i = n" by simp
      with crd show ?thesis by simp
    next
      case False
      with a have "d k' = Some i" by simp
      from bnd [OF this] show ?thesis by simp
    qed
  qed
  have i': "\<And>k1 k2 i. (d(k \<mapsto> n)) k1 = Some i \<Longrightarrow> (d(k \<mapsto> n)) k2 = Some i \<Longrightarrow> k1 = k2"
  proof -
    fix k1 k2 i assume a1: "(d(k \<mapsto> n)) k1 = Some i" and a2: "(d(k \<mapsto> n)) k2 = Some i"
    show "k1 = k2"
    proof (cases "k1 = k")
      case k1: True
      with a1 have in': "i = n" by simp
      show ?thesis
      proof (cases "k2 = k")
        case True with k1 show ?thesis by simp
      next
        case False
        with a2 have "d k2 = Some i" by simp
        from bnd [OF this] in' show ?thesis by simp
      qed
    next
      case k1: False
      with a1 have d1: "d k1 = Some i" by simp
      show ?thesis
      proof (cases "k2 = k")
        case True
        with a2 have "i = n" by simp
        with bnd [OF d1] show ?thesis by simp
      next
        case False
        with a2 have "d k2 = Some i" by simp
        with d1 show ?thesis by (rule inj)
      qed
    qed
  qed
  have f': "finite (dom (d(k \<mapsto> n)))" using fin by simp
  have c': "n0 + card (dom (d(k \<mapsto> n))) = Suc n" using fin crd knd by simp
  show ?thesis unfolding dict_ok_def using b' i' f' c' by blast
qed

lemma dedup_corner_Some:
  "snd sd k = Some j \<Longrightarrow> dedup_corner m sd k = Inr (sd, j)"
  by (simp add: dedup_corner_def)

lemma dedup_corner_None:
  assumes "snd sd k = None"
  shows "dedup_corner m sd k =
     (if fst k < length (mesh_vertices m)
      then Inr ((\<lparr> vs_verts = vs_verts (fst sd) @ [co (mesh_vertices m ! fst k)],
                   vs_normals = vs_normals (fst sd) @ [normal (mesh_vertices m ! fst k)],
                   vs_uvs = vs_uvs (fst sd) @ [snd k],
                   vs_groups = vs_groups (fst sd) @ [groups (mesh_vertices m ! fst k)] \<rparr>,
                 (snd sd)(k \<mapsto> length (vs_verts (fst sd)))), length (vs_verts (fst sd)))
      else Inl IndexError)"
  using assms by (simp add: dedup_corner_def bind_err_def py_index_def Let_def)

lemma dedup_corner_inv:
  assumes inv: "dict_inv n0 sd" and run: "dedup_corner m sd k = Inr (sd', i)"
  shows "dict_inv n0 sd' \<and> snd sd \<subseteq>\<^sub>m snd sd' \<and> snd sd' k = Some i \<and>
         dom (snd sd') = insert k (dom (snd sd)) \<and>
         length (vs_verts (fst sd)) \<le> length (vs_verts (fst sd'))"
proof (cases "snd sd k")
  case (Some j)
  from run dedup_corner_Some [OF Some, of m] have "sd' = sd" "i = j" by simp_all
  with Some inv show ?thesis by (auto simp: dom_def)
next
  case None
  let ?n = "length (vs_verts (fst sd))"
  from run dedup_corner_None [OF None, of m]
  have lt: "fst k < length (mesh_vertices m)" by (simp split: if_splits)
  from run dedup_corner_None [OF None, of m] lt
  have d': "snd sd' = (snd sd)(k \<mapsto> ?n)" and i: "i = ?n"
    and v: "vs_verts (fst sd') = vs_verts (fst sd) @ [co (mesh_vertices m ! fst k)]"
    and nn: "vs_normals (fst sd') = vs_normals (fst sd) @ [normal (mesh_vertices m ! fst k)]"
    and u: "vs_uvs (fst sd') = vs_uvs (fst sd) @ [snd k]"
    and g: "vs_groups (fst sd') = vs_groups (fst sd) @ [groups (mesh_vertices m ! fst k)]"
    by auto
  from inv have wf: "wf_stream (fst sd)" and ok: "dict_ok n0 ?n (snd sd)"
    by (simp_all add: dict_inv_def)
  have wf': "wf_stream (fst sd')" using wf by (simp add: wf_stream_def v nn u g)
  have len: "length (vs_verts (fst sd')) = Suc ?n" by (simp add: v)
  have ok': "dict_ok n0 (Suc ?n) (snd sd')"
    unfolding d' using ok None by (rule dict_ok_update)
  have le: "snd sd \<subseteq>\<^sub>m snd sd'" using None by (auto simp: d' map_le_def dom_def)
  show ?thesis using wf' ok' le by (simp add: dict_inv_def len d' i)
qed

lemma map_le_Some: "d \<subseteq>\<^sub>m d' \<Longrightarrow> d k = Some i \<Longrightarrow> d' k = Some i"
  by (auto simp: map_le_def dom_def)

lemma dedup_tri_inv:
  assumes inv: "dict_inv n0 sd" and run: "dedup_tri m sd (a, b, c) = Inr (sd', (i, j, l))"
  shows "dict_inv n0 sd' \<and> snd sd \<subseteq>\<^sub>m snd sd' \<and>
         snd sd' a = Some i \<and> snd sd' b = Some j \<and> snd sd' c = Some l \<and>
         dom (snd sd') = {a, b, c} \<union> dom (snd sd)"
proof -
  from run obtain sd1 sd2 where
    1: "dedup_corner m sd a = Inr (sd1, i)" and
    2: "dedup_corner m sd1 b = Inr (sd2, j)" and
    3: "dedup_corner m sd2 c = Inr (sd', l)"
    by (auto simp: dedup_tri_def bind_err_def split: sum.splits)
  note A = dedup_corner_inv [OF inv 1]
  note B = dedup_corner_inv [OF A [THEN conjunct1] 2]
  note C = dedup_corner_inv [OF B [THEN conjunct1] 3]
  have l12: "snd sd1 \<subseteq>\<^sub>m snd sd2" using B by simp
  have l23: "snd sd2 \<subseteq>\<^sub>m snd sd'" using C by simp
  have l01: "snd sd \<subseteq>\<^sub>m snd sd1" using A by simp
  have a1: "snd sd1 a = Some i" using A by simp
  have b2: "snd sd2 b = Some j" using B by simp
  have a: "snd sd' a = Some i"
    by (rule map_le_Some [OF l23 map_le_Some [OF l12 a1]])
  have b: "snd sd' b = Some j"
    by (rule map_le_Some [OF l23 b2])
  have c: "snd sd' c = Some l" using C by simp
  have le: "snd sd \<subseteq>\<^sub>m snd sd'"
    by (rule map_le_trans [OF l01 map_le_trans [OF l12 l23]])
  have dm: "dom (snd sd') = {a, b, c} \<union> dom (snd sd)"
  proof -
    have "dom (snd sd1) = insert a (dom (snd sd))" using A by simp
    moreover have "dom (snd sd2) = insert b (dom (snd sd1))" using B by simp
    moreover have "dom (snd sd') = insert c (dom (snd sd2))" using C by simp
    ultimately show ?thesis by auto
  qed
  have inv': "dict_inv n0 sd'" using C by simp
  from inv' a b c le dm show ?thesis by simp
qed

lemma dedup_sm_inv:
  "dict_inv n0 sd \<Longrightarrow> dedup_sm m sd sm = Inr (sd', sm') \<Longrightarrow>
     dict_inv n0 sd' \<and> snd sd \<subseteq>\<^sub>m snd sd' \<and> dom (snd sd') = set (flat sm) \<union> dom (snd sd) \<and>
     map (snd sd') (flat sm) = map Some (flat sm')"
proof (induction sm arbitrary: sd sm')
  case Nil
  then show ?case by simp
next
  case (Cons ft fts)
  obtain a b c where ft: "ft = (a, b, c)" by (cases ft) auto
  from Cons.prems(2) obtain sd1 tv tvs where
    1: "dedup_tri m sd ft = Inr (sd1, tv)" and
    2: "dedup_sm m sd1 fts = Inr (sd', tvs)" and sm': "sm' = tv # tvs"
    by (auto simp: bind_err_def split: sum.splits)
  obtain i j l where tv: "tv = (i, j, l)" by (cases tv) auto
  note A = dedup_tri_inv [OF Cons.prems(1) 1 [unfolded ft tv]]
  note B = Cons.IH [OF A [THEN conjunct1] 2]
  have le: "snd sd1 \<subseteq>\<^sub>m snd sd'" using B by simp
  have a1: "snd sd1 a = Some i" and b1: "snd sd1 b = Some j" and c1: "snd sd1 c = Some l"
    and l01: "snd sd \<subseteq>\<^sub>m snd sd1"
    using A by simp_all
  have a: "snd sd' a = Some i" by (rule map_le_Some [OF le a1])
  have b: "snd sd' b = Some j" by (rule map_le_Some [OF le b1])
  have c: "snd sd' c = Some l" by (rule map_le_Some [OF le c1])
  have le0: "snd sd \<subseteq>\<^sub>m snd sd'" by (rule map_le_trans [OF l01 le])
  have dm: "dom (snd sd') = set (flat (ft # fts)) \<union> dom (snd sd)"
  proof -
    have "dom (snd sd1) = {a, b, c} \<union> dom (snd sd)" using A by simp
    moreover have "dom (snd sd') = set (flat fts) \<union> dom (snd sd1)" using B by simp
    ultimately show ?thesis unfolding ft by auto
  qed
  have mp0: "map (snd sd') (flat fts) = map Some (flat tvs)" using B by simp
  have mp: "map (snd sd') (flat (ft # fts)) = map Some (flat sm')"
    using mp0 a b c by (simp add: ft tv sm')
  have inv': "dict_inv n0 sd'" using B by simp
  from inv' le0 dm mp show ?case by simp
qed

lemma dedup_corner_total:
  "fst k < length (mesh_vertices m) \<Longrightarrow> \<exists>r. dedup_corner m sd k = Inr r"
  by (cases "snd sd k") (simp_all add: dedup_corner_Some dedup_corner_None)

lemma dedup_tri_total:
  assumes "list_all (\<lambda>k. fst k < length (mesh_vertices m)) (tri_list ft)"
  shows "\<exists>r. dedup_tri m sd ft = Inr r"
proof -
  obtain a b c where ft: "ft = (a, b, c)" by (cases ft) auto
  from assms have va: "fst a < length (mesh_vertices m)" and vb: "fst b < length (mesh_vertices m)"
    and vc: "fst c < length (mesh_vertices m)" by (simp_all add: ft tri_list_def)
  from dedup_corner_total [OF va] obtain sd1 i where 1: "dedup_corner m sd a = Inr (sd1, i)"
    by (metis surj_pair)
  from dedup_corner_total [OF vb] obtain sd2 j where 2: "dedup_corner m sd1 b = Inr (sd2, j)"
    by (metis surj_pair)
  from dedup_corner_total [OF vc] obtain sd3 l where 3: "dedup_corner m sd2 c = Inr (sd3, l)"
    by (metis surj_pair)
  show ?thesis by (simp add: dedup_tri_def ft 1 2 3 bind_err_def)
qed

lemma dedup_sm_total:
  "list_all (\<lambda>k. fst k < length (mesh_vertices m)) (flat sm) \<Longrightarrow> \<exists>r. dedup_sm m sd sm = Inr r"
proof (induction sm arbitrary: sd)
  case Nil
  show ?case by simp
next
  case (Cons ft fts)
  from Cons.prems have v1: "list_all (\<lambda>k. fst k < length (mesh_vertices m)) (tri_list ft)"
    and v2: "list_all (\<lambda>k. fst k < length (mesh_vertices m)) (flat fts)"
    by (simp_all add: flat_def)
  from dedup_tri_total [OF v1] obtain sd1 tv where 1: "dedup_tri m sd ft = Inr (sd1, tv)"
    by (metis surj_pair)
  from Cons.IH [OF v2] obtain sd2 tvs where 2: "dedup_sm m sd1 fts = Inr (sd2, tvs)"
    by (metis surj_pair)
  show ?case by (simp add: 1 2 bind_err_def)
qed

lemma make_verts_loop_total:
  "list_all (\<lambda>sm. list_all (\<lambda>k. fst k < length (mesh_vertices m)) (flat sm)) sms \<Longrightarrow>
   \<exists>r. make_verts_loop m vs sms = Inr r"
proof (induction sms arbitrary: vs)
  case Nil
  show ?case by simp
next
  case (Cons sm sms)
  from Cons.prems have v1: "list_all (\<lambda>k. fst k < length (mesh_vertices m)) (flat sm)"
    and v2: "list_all (\<lambda>sm. list_all (\<lambda>k. fst k < length (mesh_vertices m)) (flat sm)) sms"
    by simp_all
  from dedup_sm_total [OF v1] obtain sd sm' where 1: "dedup_sm m (vs, Map.empty) sm = Inr (sd, sm')"
    by (metis surj_pair)
  from Cons.IH [OF v2] obtain vs' sms' where 2: "make_verts_loop m (fst sd) sms = Inr (vs', sms')"
    by (metis surj_pair)
  show ?case by (simp add: 1 2 bind_err_def)
qed

lemma dedup_sm_fresh:
  assumes wf: "wf_stream vs" and run: "dedup_sm m (vs, Map.empty) sm = Inr (sd', sm')"
  shows "wf_stream (fst sd') \<and>
     block_ok (length (vs_verts vs)) (length (vs_verts (fst sd'))) (flat sm) (flat sm')"
proof -
  let ?lo = "length (vs_verts vs)"
  let ?n = "length (vs_verts (fst sd'))"
  let ?d = "snd sd'"
  have "dict_ok ?lo ?lo (Map.empty :: vuvdict)" by (rule dict_ok_empty)
  then have inv0: "dict_inv ?lo (vs, Map.empty)"
    using wf by (simp add: dict_inv_def)
  from dedup_sm_inv [OF inv0 run]
  have inv: "dict_inv ?lo sd'" and dm: "dom ?d = set (flat sm)"
    and mp: "map ?d (flat sm) = map Some (flat sm')"
    by simp_all
  from inv have wf': "wf_stream (fst sd')" and ok: "dict_ok ?lo ?n ?d"
    by (simp_all add: dict_inv_def)
  from ok have bnd: "\<And>k i. ?d k = Some i \<Longrightarrow> ?lo \<le> i \<and> i < ?n"
    and inj: "\<And>k k' i. ?d k = Some i \<Longrightarrow> ?d k' = Some i \<Longrightarrow> k = k'"
    and crd: "?lo + card (dom ?d) = ?n"
    unfolding dict_ok_def by blast+
  have len: "length (flat sm') = length (flat sm)"
    using arg_cong [OF mp, of length] by simp
  have at: "\<And>p. p < length (flat sm) \<Longrightarrow> ?d (flat sm ! p) = Some (flat sm' ! p)"
  proof -
    fix p assume p: "p < length (flat sm)"
    have "map ?d (flat sm) ! p = map Some (flat sm') ! p" by (simp only: mp)
    with p len show "?d (flat sm ! p) = Some (flat sm' ! p)" by simp
  qed
  have rng: "\<forall>p<length (flat sm). ?lo \<le> flat sm' ! p \<and> flat sm' ! p < ?n"
    using at bnd by blast
  have iff: "\<forall>p<length (flat sm). \<forall>q<length (flat sm).
      (flat sm' ! p = flat sm' ! q) = (flat sm ! p = flat sm ! q)"
  proof (intro allI impI)
    fix p q assume p: "p < length (flat sm)" and q: "q < length (flat sm)"
    show "(flat sm' ! p = flat sm' ! q) = (flat sm ! p = flat sm ! q)"
    proof
      assume e: "flat sm' ! p = flat sm' ! q"
      from at [OF p] at [OF q] e show "flat sm ! p = flat sm ! q"
        by (metis inj)
    next
      assume e: "flat sm ! p = flat sm ! q"
      from at [OF p] at [OF q] e show "flat sm' ! p = flat sm' ! q" by simp
    qed
  qed
  have hi: "?n = ?lo + card (set (flat sm))" using crd dm by simp
  show ?thesis using wf' len rng iff hi by (simp add: block_ok_def)
qed

lemma offs_0: "offs n sms 0 = n"
  by (simp add: offs_def)

lemma offs_Suc: "offs n (sm # sms) (Suc j) = offs (n + card (set (flat sm))) sms j"
  by (simp add: offs_def)

lemma offs_mono: "i \<le> j \<Longrightarrow> offs n sms i \<le> offs n sms j"
proof (induction sms arbitrary: i j n)
  case Nil
  show ?case by (simp add: offs_def)
next
  case (Cons sm sms)
  show ?case
  proof (cases i)
    case 0
    then show ?thesis by (simp add: offs_def)
  next
    case (Suc i')
    with Cons.prems obtain j' where j: "j = Suc j'" and le: "i' \<le> j'" by (cases j) auto
    show ?thesis unfolding Suc j offs_Suc by (rule Cons.IH [OF le])
  qed
qed

lemma offs_all: "offs n sms (length sms) = n + sum_list (map (\<lambda>sm. card (set (flat sm))) sms)"
  by (simp add: offs_def)

lemma make_verts_loop_blocks:
  "wf_stream vs \<Longrightarrow> make_verts_loop m vs sms = Inr (vs', sms') \<Longrightarrow>
     wf_stream vs' \<and> length sms' = length sms \<and>
     length (vs_verts vs') = offs (length (vs_verts vs)) sms (length sms) \<and>
     (\<forall>j<length sms. block_ok (offs (length (vs_verts vs)) sms j)
          (offs (length (vs_verts vs)) sms (Suc j)) (flat (sms ! j)) (flat (sms' ! j)))"
proof (induction sms arbitrary: vs sms')
  case Nil
  then show ?case by (simp add: offs_def)
next
  case (Cons sm sms)
  from Cons.prems(2) obtain sd sm1 sms1 where
    1: "dedup_sm m (vs, Map.empty) sm = Inr (sd, sm1)" and
    2: "make_verts_loop m (fst sd) sms = Inr (vs', sms1)" and s': "sms' = sm1 # sms1"
    by (auto simp: bind_err_def split: sum.splits)
  let ?n = "length (vs_verts vs)"
  from dedup_sm_fresh [OF Cons.prems(1) 1]
  have wf1: "wf_stream (fst sd)"
    and blk: "block_ok ?n (length (vs_verts (fst sd))) (flat sm) (flat sm1)"
    by simp_all
  from blk have n1: "length (vs_verts (fst sd)) = ?n + card (set (flat sm))"
    by (simp add: block_ok_def)
  from Cons.IH [OF wf1 2]
  have wf': "wf_stream vs'" and len: "length sms1 = length sms"
    and tot: "length (vs_verts vs') = offs (?n + card (set (flat sm))) sms (length sms)"
    and rest: "\<And>j. j < length sms \<Longrightarrow> block_ok (offs (?n + card (set (flat sm))) sms j)
          (offs (?n + card (set (flat sm))) sms (Suc j)) (flat (sms ! j)) (flat (sms1 ! j))"
    unfolding n1 by simp_all
  have blocks: "\<forall>j<length (sm # sms). block_ok (offs ?n (sm # sms) j)
          (offs ?n (sm # sms) (Suc j)) (flat ((sm # sms) ! j)) (flat (sms' ! j))"
  proof (intro allI impI)
    fix j assume j: "j < length (sm # sms)"
    show "block_ok (offs ?n (sm # sms) j) (offs ?n (sm # sms) (Suc j))
            (flat ((sm # sms) ! j)) (flat (sms' ! j))"
    proof (cases j)
      case 0
      have "offs ?n (sm # sms) (Suc 0) = length (vs_verts (fst sd))"
        by (simp add: offs_def n1)
      with blk show ?thesis by (simp add: 0 s' offs_0)
    next
      case (Suc j')
      with j have "j' < length sms" by simp
      from rest [OF this] show ?thesis by (simp add: Suc s' offs_Suc)
    qed
  qed
  show ?case using wf' len tot blocks by (simp add: s' offs_Suc)
qed

lemma block_ok_range:
  "block_ok lo hi ks js \<Longrightarrow> p < length ks \<Longrightarrow> lo \<le> js ! p \<and> js ! p < hi"
  unfolding block_ok_def by blast

lemma block_ok_length: "block_ok lo hi ks js \<Longrightarrow> length js = length ks"
  unfolding block_ok_def by blast

lemma make_verts_total:
  "corners_valid m sms \<Longrightarrow> \<exists>vs sms'. make_verts m sms = Inr (vs, sms')"
  unfolding corners_valid_def make_verts_def
  by (drule make_verts_loop_total [where vs = empty_vstream]) (metis surj_pair)

lemma make_verts_blocks:
  assumes "make_verts m sms = Inr (vs, sms')"
  shows "wf_stream vs \<and> length sms' = length sms \<and>
     length (vs_verts vs) = offs 0 sms (length sms) \<and>
     (\<forall>j<length sms. block_ok (offs 0 sms j) (offs 0 sms (Suc j)) (flat (sms ! j)) (flat (sms' ! j)))"
proof -
  have wf0: "wf_stream empty_vstream" by (simp add: wf_stream_def empty_vstream_def)
  have n0: "length (vs_verts empty_vstream) = 0" by (simp add: empty_vstream_def)
  from make_verts_loop_blocks [OF wf0 assms [unfolded make_verts_def]]
  show ?thesis unfolding n0 .
qed

lemma set_flat: "set (flat sm) = (\<Union>t\<in>set sm. set (tri_list t))"
  by (simp add: flat_def)

lemma make_verts_bound:
  assumes run: "make_verts m sms = Inr (vs, sms')"
    and sm: "sm' \<in> set sms'" and tri: "tri \<in> set sm'" and i: "i \<in> set (tri_list tri)"
  shows "i < length (vs_verts vs)"
proof -
  note B = make_verts_blocks [OF run]
  from B have len: "length sms' = length sms" by simp
  from sm obtain j where j: "j < length sms'" and smj: "sm' = sms' ! j"
    by (auto simp: in_set_conv_nth)
  from j len have j': "j < length sms" by simp
  with B have blk: "block_ok (offs 0 sms j) (offs 0 sms (Suc j)) (flat (sms ! j)) (flat sm')"
    unfolding smj by blast
  from tri i have "i \<in> set (flat sm')" by (auto simp: set_flat)
  then obtain p where p: "p < length (flat sm')" and ip: "i = flat sm' ! p"
    by (auto simp: in_set_conv_nth)
  from p have p': "p < length (flat (sms ! j))" using block_ok_length [OF blk] by simp
  from block_ok_range [OF blk p'] have "flat sm' ! p < offs 0 sms (Suc j)" by simp
  also have "\<dots> \<le> offs 0 sms (length sms)" using j' by (intro offs_mono) simp
  also have "\<dots> = length (vs_verts vs)" using B by simp
  finally show ?thesis by (simp add: ip)
qed

text \<open>
  C8. When every corner names a vertex of the mesh, \<^verbatim>\<open>make_verts\<close> returns, and each of
  the three entries of every rewritten triangle of every submesh is strictly less than
  the length of the list of positions.
\<close>

theorem make_verts_indices_valid:
  assumes "corners_valid m sms"
  shows "\<exists>vs sms'. make_verts m sms = Inr (vs, sms') \<and>
     (\<forall>sm'\<in>set sms'. \<forall>tri\<in>set sm'. \<forall>i\<in>set (tri_list tri). i < length (vs_verts vs))"
proof -
  from make_verts_total [OF assms] obtain vs sms' where run: "make_verts m sms = Inr (vs, sms')"
    by blast
  have "\<forall>sm'\<in>set sms'. \<forall>tri\<in>set sm'. \<forall>i\<in>set (tri_list tri). i < length (vs_verts vs)"
    using make_verts_bound [OF run] by blast
  with run show ?thesis by blast
qed

lemma blocks_apart:
  assumes bi: "block_ok (offs 0 sms i) (offs 0 sms (Suc i)) ks js"
    and bj: "block_ok (offs 0 sms j) (offs 0 sms (Suc j)) ks' js'"
    and lt: "i < j" and p: "p < length ks" and q: "q < length ks'"
  shows "js ! p \<noteq> js' ! q"
proof -
  from block_ok_range [OF bi p] have "js ! p < offs 0 sms (Suc i)" by simp
  also have "\<dots> \<le> offs 0 sms j" using lt by (intro offs_mono) simp
  also have "\<dots> \<le> js' ! q" using block_ok_range [OF bj q] by simp
  finally show ?thesis by simp
qed

text \<open>
  C3, as the code has it. \<^verbatim>\<open>vuvdict\<close> is created anew for each submesh, so the mapping
  from corner keys to indices is scoped to one submesh. When every corner names a vertex
  of the mesh, \<^verbatim>\<open>make_verts\<close> returns, every submesh keeps its number of corners, and
  \<^item> two corners of the same submesh get the same index exactly when their keys
    (vertex index and uvs of all layers) are equal;
  \<^item> two corners with different keys get different indices, in whichever submeshes
    they lie;
  \<^item> two corners of different submeshes get different indices, also when their keys
    are equal;
  \<^item> the stream holds one vertex for each distinct key of each submesh.
\<close>

theorem make_verts_dedup_per_submesh:
  assumes "corners_valid m sms"
  shows "\<exists>vs sms'. make_verts m sms = Inr (vs, sms') \<and> length sms' = length sms \<and>
     (\<forall>j<length sms. length (flat (sms' ! j)) = length (flat (sms ! j))) \<and>
     (\<forall>j<length sms. \<forall>p<length (flat (sms ! j)). \<forall>q<length (flat (sms ! j)).
        (flat (sms' ! j) ! p = flat (sms' ! j) ! q) = (flat (sms ! j) ! p = flat (sms ! j) ! q)) \<and>
     (\<forall>i<length sms. \<forall>j<length sms. \<forall>p<length (flat (sms ! i)). \<forall>q<length (flat (sms ! j)).
        flat (sms ! i) ! p \<noteq> flat (sms ! j) ! q \<longrightarrow> flat (sms' ! i) ! p \<noteq> flat (sms' ! j) ! q) \<and>
     (\<forall>i<length sms. \<forall>j<length sms. \<forall>p<length (flat (sms ! i)). \<forall>q<length (flat (sms ! j)).
        i \<noteq> j \<longrightarrow> flat (sms' ! i) ! p \<noteq> flat (sms' ! j) ! q) \<and>
     length (vs_verts vs) = sum_list (map (\<lambda>sm. card (set (flat sm))) sms)"
proof -
  from make_verts_total [OF assms] obtain vs sms' where run: "make_verts m sms = Inr (vs, sms')"
    by blast
  note B = make_verts_blocks [OF run]
  from B have len: "length sms' = length sms" by simp
  from B have blk: "\<And>j. j < length sms \<Longrightarrow>
      block_ok (offs 0 sms j) (offs 0 sms (Suc j)) (flat (sms ! j)) (flat (sms' ! j))" by blast
  have c2: "\<forall>j<length sms. length (flat (sms' ! j)) = length (flat (sms ! j))"
    using blk block_ok_length by blast
  have c3: "\<forall>j<length sms. \<forall>p<length (flat (sms ! j)). \<forall>q<length (flat (sms ! j)).
        (flat (sms' ! j) ! p = flat (sms' ! j) ! q) = (flat (sms ! j) ! p = flat (sms ! j) ! q)"
    using blk unfolding block_ok_def by blast
  have c5: "\<forall>i<length sms. \<forall>j<length sms. \<forall>p<length (flat (sms ! i)). \<forall>q<length (flat (sms ! j)).
        i \<noteq> j \<longrightarrow> flat (sms' ! i) ! p \<noteq> flat (sms' ! j) ! q"
  proof (intro allI impI)
    fix i j p q
    assume i: "i < length sms" and j: "j < length sms"
      and p: "p < length (flat (sms ! i))" and q: "q < length (flat (sms ! j))" and ne: "i \<noteq> j"
    show "flat (sms' ! i) ! p \<noteq> flat (sms' ! j) ! q"
    proof (cases "i < j")
      case True
      from blocks_apart [OF blk [OF i] blk [OF j] True p q] show ?thesis .
    next
      case False
      with ne have "j < i" by simp
      from blocks_apart [OF blk [OF j] blk [OF i] this q p] show ?thesis by simp
    qed
  qed
  have c4: "\<forall>i<length sms. \<forall>j<length sms. \<forall>p<length (flat (sms ! i)). \<forall>q<length (flat (sms ! j)).
        flat (sms ! i) ! p \<noteq> flat (sms ! j) ! q \<longrightarrow> flat (sms' ! i) ! p \<noteq> flat (sms' ! j) ! q"
  proof (intro allI impI)
    fix i j p q
    assume i: "i < length sms" and j: "j < length sms"
      and p: "p < length (flat (sms ! i))" and q: "q < length (flat (sms ! j))"
      and ne: "flat (sms ! i) ! p \<noteq> flat (sms ! j) ! q"
    show "flat (sms' ! i) ! p \<noteq> flat (sms' ! j) ! q"
    proof (cases "i = j")
      case True
      with c3 j p q ne show ?thesis by simp
    next
      case False
      with c5 i j p q show ?thesis by blast
    qed
  qed
  have c6: "length (vs_verts vs) = sum_list (map (\<lambda>sm. card (set (flat sm))) sms)"
    using B by (simp add: offs_all)
  from run len c2 c3 c4 c5 c6 show ?thesis by blast
qed

lemma quad_make_verts:
  "make_verts quad_mesh [quad_tris] = Inr (quad_stream, [[(0, 1, 2), (0, 2, 3)]])"
  by (simp add: make_verts_def quad_tris_def quad_mesh_def empty_vstream_def dedup_tri_def
      dedup_corner_def bind_err_def py_index_def quad_stream_def)

text \<open>
  Counterexample for C3 as the claim words it: two submeshes that each hold the same
  triangle, with identical corner keys. The corners get the indices 0, 1, 2 in the first
  submesh and 3, 4, 5 in the second, and the stream holds six vertices.
\<close>

theorem shared_corner_counterexample:
  "verts_and_submeshes (make_verts quad_mesh [[quad_tri0], [quad_tri0]]) =
     Inr (6, [[(0, 1, 2)], [(3, 4, 5)]])"
  by (simp add: make_verts_def quad_tri0_def quad_mesh_def empty_vstream_def dedup_tri_def
      dedup_corner_def bind_err_def py_index_def verts_and_submeshes_def)

lemma quad_corners_valid: "corners_valid quad_mesh [quad_tris]"
  by (simp add: corners_valid_def quad_tris_def quad_mesh_def)

text \<open>Witness for C8: the quad.\<close>

theorem make_verts_indices_valid_witness:
  "corners_valid quad_mesh [quad_tris] \<and>
   make_verts quad_mesh [quad_tris] = Inr (quad_stream, [[(0, 1, 2), (0, 2, 3)]]) \<and>
   3 < length (vs_verts quad_stream)"
proof -
  from make_verts_indices_valid [OF quad_corners_valid] obtain vs sms' where
    run: "make_verts quad_mesh [quad_tris] = Inr (vs, sms')" and
    bnd: "\<forall>sm'\<in>set sms'. \<forall>tri\<in>set sm'. \<forall>i\<in>set (tri_list tri). i < length (vs_verts vs)"
    by blast
  from run quad_make_verts have vs: "vs = quad_stream" and sms': "sms' = [[(0, 1, 2), (0, 2, 3)]]"
    by simp_all
  from bnd have "3 < length (vs_verts vs)"
    unfolding sms' by (simp add: tri_list_def)
  with quad_corners_valid quad_make_verts vs show ?thesis by simp
qed

text \<open>Witness for C3: the quad has four distinct corners and its stream four vertices.\<close>

theorem make_verts_dedup_per_submesh_witness:
  "corners_valid quad_mesh [quad_tris] \<and>
   make_verts quad_mesh [quad_tris] = Inr (quad_stream, [[(0, 1, 2), (0, 2, 3)]]) \<and>
   length (vs_verts quad_stream) = 4"
proof -
  from make_verts_dedup_per_submesh [OF quad_corners_valid] obtain vs sms' where
    run: "make_verts quad_mesh [quad_tris] = Inr (vs, sms')" and
    cnt: "length (vs_verts vs) = sum_list (map (\<lambda>sm. card (set (flat sm))) [quad_tris])"
    by blast
  from run quad_make_verts have vs: "vs = quad_stream" by simp
  have "card (set (flat quad_tris)) = 4"
    by (subst List.card_set) (simp add: quad_tris_def flat_def tri_list_def)
  with cnt have "length (vs_verts vs) = 4" by simp
  with quad_corners_valid quad_make_verts vs show ?thesis by simp
qed

subsection \<open>make\_tangents: no failure on valid input\<close>

lemma py_index_ok: "i < length xs \<Longrightarrow> py_index xs i = Inr (xs ! i)"
  by (simp add: py_index_def)

lemma list_iadd_ok:
  "i < length xs \<Longrightarrow> list_iadd ar h xs i v = Inr (Vector_iadd ar h (xs ! i) v, xs)"
  by (simp add: list_iadd_def py_index_def bind_err_def)

lemma accumulate_run:
  assumes "tstate_ok n st" and "tri_valid n tri"
  shows "accumulate ar st tri sd td =
     Inr \<lparr> store =
            Vector_iadd ar (Vector_iadd ar (Vector_iadd ar
              (Vector_iadd ar (Vector_iadd ar (Vector_iadd ar (store st)
                 (sdir st ! fst tri) sd) (sdir st ! fst (snd tri)) sd) (sdir st ! snd (snd tri)) sd)
              (tdir st ! fst tri) td) (tdir st ! fst (snd tri)) td) (tdir st ! snd (snd tri)) td,
          sdir = sdir st, tdir = tdir st \<rparr>"
proof -
  obtain i0 i1 i2 where tri: "tri = (i0, i1, i2)" by (cases tri) auto
  from assms have s: "i0 < length (sdir st)" "i1 < length (sdir st)" "i2 < length (sdir st)"
    and t: "i0 < length (tdir st)" "i1 < length (tdir st)" "i2 < length (tdir st)"
    by (simp_all add: tstate_ok_def tri_valid_def tri_list_def tri)
  show ?thesis
    by (simp add: accumulate_def tri list_iadd_ok s t bind_err_def)
qed

lemma accumulate_ok:
  assumes "tstate_ok n st" and "tri_valid n tri"
  shows "\<exists>h. accumulate ar st tri sd td = Inr \<lparr> store = h, sdir = sdir st, tdir = tdir st \<rparr>"
  using accumulate_run [OF assms] by blast

lemma tri_step_skip:
  assumes v: "tri_valid (length verts) tri" and len: "length uvs = length verts"
    and deg: "degenerate ar uvs tri"
  shows "tri_step ar verts uvs st tri = Inr st"
proof -
  obtain i0 i1 i2 where tri: "tri = (i0, i1, i2)" by (cases tri) auto
  from v have i: "i0 < length verts" "i1 < length verts" "i2 < length verts"
    by (simp_all add: tri_valid_def tri_list_def tri)
  from i len have j: "i0 < length uvs" "i1 < length uvs" "i2 < length uvs" by simp_all
  let ?r = "uv_det ar (uvs ! i0) (uvs ! i1) (uvs ! i2)"
  have d: "f_sub ar
      (f_mul ar (f_sub ar (fst (uvs ! i1)) (fst (uvs ! i0))) (f_sub ar (snd (uvs ! i2)) (snd (uvs ! i0))))
      (f_mul ar (f_sub ar (fst (uvs ! i2)) (fst (uvs ! i0))) (f_sub ar (snd (uvs ! i1)) (snd (uvs ! i0))))
      = ?r"
    by (simp add: uv_det_def Let_def)
  from deg have d2: "f_less ar (f_mul ar ?r ?r) (f_eps ar)" by (simp add: degenerate_def tri)
  show ?thesis
    unfolding tri_step_def tri
    by (simp only: prod.case py_index_ok i j bind_err_def sum.case Let_def d d2 if_True)
qed

lemma Vector_div_ok: "\<not> v_div_raises ar r \<Longrightarrow> Vector_div ar a r = Inr (v_div ar a r)"
  by (simp add: Vector_div_def)

lemma tri_step_ok:
  assumes safe: "div_safe ar" and ok: "tstate_ok n st" and n: "n = length verts"
    and v: "tri_valid n tri" and len: "length uvs = length verts"
  shows "\<exists>h. tri_step ar verts uvs st tri = Inr \<lparr> store = h, sdir = sdir st, tdir = tdir st \<rparr>"
proof (cases "degenerate ar uvs tri")
  case True
  from tri_step_skip [OF v [unfolded n] len True]
  have "tri_step ar verts uvs st tri = Inr \<lparr> store = store st, sdir = sdir st, tdir = tdir st \<rparr>"
    by simp
  then show ?thesis by blast
next
  case False
  obtain i0 i1 i2 where tri: "tri = (i0, i1, i2)" by (cases tri) auto
  from v n have i: "i0 < length verts" "i1 < length verts" "i2 < length verts"
    by (simp_all add: tri_valid_def tri_list_def tri)
  from i len have j: "i0 < length uvs" "i1 < length uvs" "i2 < length uvs" by simp_all
  let ?r = "uv_det ar (uvs ! i0) (uvs ! i1) (uvs ! i2)"
  have d: "f_sub ar
      (f_mul ar (f_sub ar (fst (uvs ! i1)) (fst (uvs ! i0))) (f_sub ar (snd (uvs ! i2)) (snd (uvs ! i0))))
      (f_mul ar (f_sub ar (fst (uvs ! i2)) (fst (uvs ! i0))) (f_sub ar (snd (uvs ! i1)) (snd (uvs ! i0))))
      = ?r"
    by (simp add: uv_det_def Let_def)
  from False have nd: "\<not> f_less ar (f_mul ar ?r ?r) (f_eps ar)" by (simp add: degenerate_def tri)
  with safe have r0: "\<not> v_div_raises ar ?r" unfolding div_safe_def by blast
  have step: "\<And>sd td. \<exists>h. accumulate ar st (i0, i1, i2) sd td =
       Inr \<lparr> store = h, sdir = sdir st, tdir = tdir st \<rparr>"
    using accumulate_ok [OF ok v] unfolding tri by blast
  show ?thesis
    unfolding tri_step_def tri
    by (simp only: prod.case py_index_ok i j bind_err_def sum.case Let_def d nd if_False
        Vector_div_ok [OF r0] step)
qed

lemma tstate_ok_store [simp]:
  "tstate_ok n \<lparr> store = h, sdir = sdir st, tdir = tdir st \<rparr> = tstate_ok n st"
  by (simp add: tstate_ok_def)

lemma shared_acc_store [simp]:
  "shared_acc n \<lparr> store = h, sdir = sdir st, tdir = tdir st \<rparr> = shared_acc n st"
  by (simp add: shared_acc_def)

lemma tri_loop_ok:
  assumes safe: "div_safe ar" and n: "n = length verts" and len: "length uvs = length verts"
  shows "tstate_ok n st \<Longrightarrow> list_all (tri_valid n) tris \<Longrightarrow>
     \<exists>h. tri_loop ar verts uvs st tris = Inr \<lparr> store = h, sdir = sdir st, tdir = tdir st \<rparr>"
proof (induction tris arbitrary: st)
  case Nil
  have "st = \<lparr> store = store st, sdir = sdir st, tdir = tdir st \<rparr>" by simp
  then show ?case by (metis tri_loop.simps(1))
next
  case (Cons tri tris)
  from Cons.prems have v: "tri_valid n tri" and vs: "list_all (tri_valid n) tris" by simp_all
  from tri_step_ok [OF safe Cons.prems(1) n v len] obtain h1 where
    1: "tri_step ar verts uvs st tri = Inr \<lparr> store = h1, sdir = sdir st, tdir = tdir st \<rparr>"
    by blast
  let ?st1 = "\<lparr> store = h1, sdir = sdir st, tdir = tdir st \<rparr>"
  have ok1: "tstate_ok n ?st1" using Cons.prems(1) by simp
  from Cons.IH [OF ok1 vs] obtain h2 where
    2: "tri_loop ar verts uvs ?st1 tris = Inr \<lparr> store = h2, sdir = sdir st, tdir = tdir st \<rparr>"
    by auto
  show ?case by (simp add: 1 2 bind_err_def)
qed

lemma sm_loop_ok:
  assumes safe: "div_safe ar" and n: "n = length verts" and len: "length uvs = length verts"
  shows "tstate_ok n st \<Longrightarrow> tris_valid n sms \<Longrightarrow>
     \<exists>h. sm_loop ar verts uvs st sms = Inr \<lparr> store = h, sdir = sdir st, tdir = tdir st \<rparr>"
proof (induction sms arbitrary: st)
  case Nil
  have "st = \<lparr> store = store st, sdir = sdir st, tdir = tdir st \<rparr>" by simp
  then show ?case by (metis sm_loop.simps(1))
next
  case (Cons sm sms)
  from Cons.prems have v: "list_all (tri_valid n) sm" and vs: "tris_valid n sms"
    by (simp_all add: tris_valid_def)
  from tri_loop_ok [OF safe n len Cons.prems(1) v] obtain h1 where
    1: "tri_loop ar verts uvs st sm = Inr \<lparr> store = h1, sdir = sdir st, tdir = tdir st \<rparr>"
    by blast
  let ?st1 = "\<lparr> store = h1, sdir = sdir st, tdir = tdir st \<rparr>"
  have ok1: "tstate_ok n ?st1" using Cons.prems(1) by simp
  from Cons.IH [OF ok1 vs] obtain h2 where
    2: "sm_loop ar verts uvs ?st1 sms = Inr \<lparr> store = h2, sdir = sdir st, tdir = tdir st \<rparr>"
    by auto
  show ?case by (simp add: 1 2 bind_err_def)
qed

lemma tri_loop_skip:
  assumes len: "length uvs = length verts"
  shows "list_all (tri_valid (length verts)) tris \<Longrightarrow> list_all (degenerate ar uvs) tris \<Longrightarrow>
     tri_loop ar verts uvs st tris = Inr st"
proof (induction tris)
  case Nil
  show ?case by simp
next
  case (Cons tri tris)
  from Cons.prems have v: "tri_valid (length verts) tri" and d: "degenerate ar uvs tri" by simp_all
  from Cons have rest: "tri_loop ar verts uvs st tris = Inr st" by simp
  show ?case by (simp add: tri_step_skip [OF v len d] rest bind_err_def)
qed

lemma sm_loop_skip:
  assumes len: "length uvs = length verts"
  shows "tris_valid (length verts) sms \<Longrightarrow> list_all (degenerate ar uvs) (concat sms) \<Longrightarrow>
     sm_loop ar verts uvs st sms = Inr st"
proof (induction sms)
  case Nil
  show ?case by simp
next
  case (Cons sm sms)
  from Cons.prems have v: "list_all (tri_valid (length verts)) sm"
    and d: "list_all (degenerate ar uvs) sm" by (simp_all add: tris_valid_def)
  from Cons have rest: "sm_loop ar verts uvs st sms = Inr st" by (simp add: tris_valid_def)
  show ?case by (simp add: tri_loop_skip [OF len v d] rest bind_err_def)
qed

lemma init_tstate_ok: "tstate_ok n (init_tstate ar n)"
  by (simp add: tstate_ok_def init_tstate_def Vector_new_def)

lemma init_tstate_shared: "shared_acc n (init_tstate ar n)"
  by (simp add: shared_acc_def init_tstate_def Vector_new_def empty_heap_def)

lemma vertex_tangent_shared:
  assumes sh: "shared_acc n st" and i: "i < n"
  shows "vertex_tangent ar st i nrm =
     Inr (\<lparr> store = (store st)\<lparr> cells := (cells (store st))
                      (0 := orthonormalized ar (cells (store st) 0) nrm) \<rparr>,
            sdir = sdir st, tdir = tdir st \<rparr>,
          tangent_entry ar (orthonormalized ar (cells (store st) 0) nrm) (cells (store st) 1))"
proof -
  from sh have sd: "sdir st = replicate n 0" and td: "tdir st = replicate n 1"
    by (simp_all add: shared_acc_def)
  have s: "py_index (sdir st) i = Inr 0" using i by (simp add: py_index_def sd)
  have t: "py_index (tdir st) i = Inr (Suc 0)" using i by (simp add: py_index_def td)
  let ?s' = "orthonormalized ar (cells (store st) 0) nrm"
  let ?h2 = "Vector_normalize ar (Vector_isub ar (store st) 0
      (v_scale ar (v_dot ar (cells (store st) 0) (v_of ar nrm)) (v_of ar nrm))) 0"
  have h2: "?h2 = (store st)\<lparr> cells := (cells (store st))(0 := ?s') \<rparr>"
    by (simp add: Vector_normalize_def Vector_isub_def orthonormalized_def)
  have c0: "cells ?h2 0 = ?s'" by (simp add: h2)
  have c1: "cells ?h2 (Suc 0) = cells (store st) 1" by (simp add: h2)
  obtain x y z where xyz: "v_tuple ar ?s' = (x, y, z)" by (cases "v_tuple ar ?s'") auto
  have "vertex_tangent ar st i nrm =
      Inr (st\<lparr> store := ?h2 \<rparr>,
           (x, y, z, if f_less ar (v_dot ar ?s' (cells (store st) 1)) (f_zero ar)
                     then f_neg_one ar else f_one ar))"
    unfolding vertex_tangent_def
    by (simp only: s t bind_err_def sum.case Let_def c0 c1 xyz prod.case)
  moreover have "st\<lparr> store := ?h2 \<rparr> =
      \<lparr> store = (store st)\<lparr> cells := (cells (store st))(0 := ?s') \<rparr>,
        sdir = sdir st, tdir = tdir st \<rparr>"
    by (simp add: h2)
  ultimately show ?thesis by (simp add: tangent_entry_def xyz)
qed

lemma tangent_at_0: "tangent_at ar s (n # ns) 0 = orthonormalized ar s n"
  by (simp add: tangent_at_def)

lemma tangent_at_Suc:
  "tangent_at ar s (n # ns) (Suc k) = tangent_at ar (orthonormalized ar s n) ns k"
  by (simp add: tangent_at_def)

lemma normals_loop_shared:
  "shared_acc n st \<Longrightarrow> i + length ns \<le> n \<Longrightarrow>
     normals_loop ar st i ns =
       Inr (map (\<lambda>k. tangent_entry ar (tangent_at ar (cells (store st) 0) ns k)
                        (cells (store st) 1)) [0 ..< length ns])"
proof (induction ns arbitrary: st i)
  case Nil
  show ?case by simp
next
  case (Cons nrm ns)
  from Cons.prems have i: "i < n" and rest: "Suc i + length ns \<le> n" by simp_all
  let ?s' = "orthonormalized ar (cells (store st) 0) nrm"
  let ?st' = "\<lparr> store = (store st)\<lparr> cells := (cells (store st))(0 := ?s') \<rparr>,
                sdir = sdir st, tdir = tdir st \<rparr>"
  note 1 = vertex_tangent_shared [OF Cons.prems(1) i, of ar nrm]
  have sh': "shared_acc n ?st'" using Cons.prems(1) by simp
  have c0: "cells (store ?st') 0 = ?s'" by simp
  have c1: "cells (store ?st') 1 = cells (store st) 1" by simp
  note 2 = Cons.IH [OF sh' rest, unfolded c0 c1]
  have m: "map (\<lambda>k. tangent_entry ar (tangent_at ar (cells (store st) 0) (nrm # ns) k)
                        (cells (store st) 1)) [0 ..< length (nrm # ns)] =
      tangent_entry ar ?s' (cells (store st) 1) #
      map (\<lambda>k. tangent_entry ar (tangent_at ar ?s' ns k) (cells (store st) 1)) [0 ..< length ns]"
    by (simp add: upt_conv_Cons map_Suc_upt [symmetric] tangent_at_0 tangent_at_Suc
        del: upt_Suc)
  show ?case unfolding m by (simp add: 1 2 bind_err_def)
qed

lemma make_tangents_run:
  assumes safe: "div_safe ar" and v: "tris_valid (length verts) sms"
    and len: "length uvs = length verts" and nl: "length normals \<le> length verts"
  shows "\<exists>st. sm_loop ar verts uvs (init_tstate ar (length verts)) sms = Inr st \<and>
     shared_acc (length verts) st \<and>
     make_tangents ar verts uvs normals sms =
       Inr (map (\<lambda>k. tangent_entry ar (tangent_at ar (cells (store st) 0) normals k)
                        (cells (store st) 1)) [0 ..< length normals])"
proof -
  let ?n = "length verts"
  let ?st0 = "init_tstate ar ?n"
  from sm_loop_ok [OF safe refl len init_tstate_ok v] obtain h where
    1: "sm_loop ar verts uvs ?st0 sms = Inr \<lparr> store = h, sdir = sdir ?st0, tdir = tdir ?st0 \<rparr>"
    by blast
  let ?st1 = "\<lparr> store = h, sdir = sdir ?st0, tdir = tdir ?st0 \<rparr>"
  have sh: "shared_acc ?n ?st1" using init_tstate_shared [of ?n ar] by simp
  from nl have "0 + length normals \<le> ?n" by simp
  note 2 = normals_loop_shared [OF sh this, of ar]
  have "make_tangents ar verts uvs normals sms =
       Inr (map (\<lambda>k. tangent_entry ar (tangent_at ar (cells (store ?st1) 0) normals k)
                        (cells (store ?st1) 1)) [0 ..< length normals])"
    by (simp only: make_tangents_def 1 bind_err_def sum.case 2)
  with 1 sh show ?thesis by blast
qed

lemma make_tangents_ok:
  assumes safe: "div_safe ar" and v: "tris_valid (length verts) sms"
    and len: "length uvs = length verts" and nl: "length normals \<le> length verts"
  shows "\<exists>ts. make_tangents ar verts uvs normals sms = Inr ts \<and> length ts = length normals"
  using make_tangents_run [OF safe v len nl] by auto

subsection \<open>make\_tangents: the accumulators\<close>

text \<open>
  C4, the code at a failing input, in exact arithmetic (every number involved is a small
  integer, which the program's floats hold exactly). With four vertices, accumulating the one
  non-degenerate triangle (0, 1, 2) changes the sum that vertex 3 reads, from zero to
  three times the triangle's contribution (1, 0, 0), and vertex 0 reads the same value:
  all entries of \<open>sdir\<close> are one Vector object, and so are all entries of \<open>tdir\<close>.
\<close>

theorem accumulators_alias:
  "acc_value (store (init_tstate exact_arith 4)) (sdir (init_tstate exact_arith 4)) 3 = (0, 0, 0) \<and>
   map_sum id (\<lambda>st. (acc_value (store st) (sdir st) 3, acc_value (store st) (sdir st) 0,
                      acc_value (store st) (tdir st) 3))
     (tri_step exact_arith four_verts four_uvs (init_tstate exact_arith 4) (0, 1, 2)) =
   Inr ((3, 0, 0), (3, 0, 0), (0, 3, 0))"
  by (simp add: tri_step_def four_verts_def four_uvs_def init_tstate_def Vector_new_def
      empty_heap_def py_index_def bind_err_def vsub_def vscale_def Vector_div_def accumulate_def
      list_iadd_def Vector_iadd_def vadd_def acc_value_def exact_arith_def)

subsection \<open>make\_tangents: degenerate triangles\<close>

lemma exact_div_safe: "div_safe exact_arith"
  by (simp add: div_safe_def exact_arith_def)

lemma sqrt_9: "sqrt 9 = (3::real)"
  using real_sqrt_abs [of 3] by simp

lemma six_accumulated:
  "map_sum id (\<lambda>st. (acc_value (store st) (sdir st) 0, acc_value (store st) (tdir st) 0,
                      acc_value (store st) (sdir st) 3, acc_value (store st) (tdir st) 3))
     (sm_loop exact_arith six_verts six_uvs (init_tstate exact_arith (length six_verts)) six_tris) =
   Inr ((3, 0, 0), (- 3, 3, 0), (3, 0, 0), (- 3, 3, 0))"
  by (simp add: tri_step_def six_verts_def six_uvs_def six_tris_def init_tstate_def Vector_new_def
      empty_heap_def py_index_def bind_err_def vsub_def vscale_def Vector_div_def accumulate_def
      list_iadd_def Vector_iadd_def vadd_def exact_arith_def acc_value_def)

lemma six_entry_0:
  "tangent_entry exact_arith (tangent_at exact_arith (3, 0, 0) six_normals 0) (- 3, 3, 0) =
     (1, 0, 0, - 1)"
  by (simp add: tangent_entry_def tangent_at_def orthonormalized_def six_normals_def
      exact_arith_def vnormalized_def vdot_def vscale_def vsub_def sqrt_9)

lemma six_entry_3:
  "tangent_entry exact_arith (tangent_at exact_arith (3, 0, 0) six_normals 3) (- 3, 3, 0) =
     (1, 0, 0, - 1)"
  by (simp add: tangent_entry_def tangent_at_def orthonormalized_def six_normals_def
      exact_arith_def vnormalized_def vdot_def vscale_def vsub_def sqrt_9 numeral_3_eq_3
      eval_nat_numeral)

text \<open>
  C10. Take any arithmetic in which a float that makes \<^verbatim>\<open>vector / float\<close> raise has a
  square below \<^verbatim>\<open>1e-6\<close>, and a vertex stream whose triangles index into it (what
  \<^verbatim>\<open>make_verts\<close> hands over), with one uv and one normal per vertex. Then
  \<^item> a triangle with \<^verbatim>\<open>r * r < 1e-6\<close> is skipped: the loop body returns the state it
    was given, accumulators included, and raises nothing;
  \<^item> \<^verbatim>\<open>make_tangents\<close> raises nothing and returns one tangent per vertex, and the
    tangent of vertex \<open>i\<close> is made of the components of the vector \<open>t\<close> that
    \<^verbatim>\<open>sdir[i]\<close> holds after \<^verbatim>\<open>t -= t.dot(n) * Vector(n)\<close> and \<^verbatim>\<open>t.normalize()\<close>,
    followed by \<^verbatim>\<open>-1.0\<close> if \<open>t \<cdot> tdir[i] < 0\<close> and by \<^verbatim>\<open>1.0\<close> otherwise, where
    \<^verbatim>\<open>sdir[i]\<close> and \<^verbatim>\<open>tdir[i]\<close> are what the accumulation left (and \<^verbatim>\<open>sdir[i]\<close>, being
    the one object all entries share, has gone through the two steps for the vertices
    before \<open>i\<close> as well);
  \<^item> when every triangle is skipped, the accumulation returns the initial state, both
    accumulators still the value of \<^verbatim>\<open>Vector()\<close>.
\<close>

theorem make_tangents_degenerate_safe:
  assumes safe: "div_safe ar" and v: "tris_valid (length verts) sms"
    and len: "length uvs = length verts" and nl: "length normals = length verts"
  shows "(\<forall>st. \<forall>tri\<in>set (concat sms). degenerate ar uvs tri \<longrightarrow>
            tri_step ar verts uvs st tri = Inr st) \<and>
     (\<exists>st ts. sm_loop ar verts uvs (init_tstate ar (length verts)) sms = Inr st \<and>
        make_tangents ar verts uvs normals sms = Inr ts \<and> length ts = length normals \<and>
        (\<forall>i<length normals.
           ts ! i = tangent_entry ar
                      (tangent_at ar (acc_value (store st) (sdir st) i) normals i)
                      (acc_value (store st) (tdir st) i))) \<and>
     (list_all (degenerate ar uvs) (concat sms) \<longrightarrow>
        sm_loop ar verts uvs (init_tstate ar (length verts)) sms =
          Inr (init_tstate ar (length verts)))"
proof -
  from nl have nle: "length normals \<le> length verts" by simp
  have a: "\<forall>st. \<forall>tri\<in>set (concat sms). degenerate ar uvs tri \<longrightarrow>
      tri_step ar verts uvs st tri = Inr st"
  proof (intro allI ballI impI)
    fix st :: "'b tstate" and tri
    assume t: "tri \<in> set (concat sms)" and d: "degenerate ar uvs tri"
    from t v have "tri_valid (length verts) tri"
      by (auto simp: tris_valid_def list_all_iff)
    from tri_step_skip [OF this len d] show "tri_step ar verts uvs st tri = Inr st" .
  qed
  from make_tangents_run [OF safe v len nle] obtain st where
    run: "sm_loop ar verts uvs (init_tstate ar (length verts)) sms = Inr st"
    and sh: "shared_acc (length verts) st"
    and mt: "make_tangents ar verts uvs normals sms =
       Inr (map (\<lambda>k. tangent_entry ar (tangent_at ar (cells (store st) 0) normals k)
                        (cells (store st) 1)) [0 ..< length normals])"
    by blast
  let ?ts = "map (\<lambda>k. tangent_entry ar (tangent_at ar (cells (store st) 0) normals k)
                        (cells (store st) 1)) [0 ..< length normals]"
  have each: "\<forall>i<length normals.
      ?ts ! i = tangent_entry ar (tangent_at ar (acc_value (store st) (sdir st) i) normals i)
                  (acc_value (store st) (tdir st) i)"
  proof (intro allI impI)
    fix i assume i: "i < length normals"
    with nl have iv: "i < length verts" by simp
    from sh iv have s: "acc_value (store st) (sdir st) i = cells (store st) 0"
      and t: "acc_value (store st) (tdir st) i = cells (store st) 1"
      by (simp_all add: acc_value_def shared_acc_def)
    show "?ts ! i = tangent_entry ar (tangent_at ar (acc_value (store st) (sdir st) i) normals i)
                  (acc_value (store st) (tdir st) i)"
      using i by (simp add: s t)
  qed
  have b: "\<exists>st ts. sm_loop ar verts uvs (init_tstate ar (length verts)) sms = Inr st \<and>
        make_tangents ar verts uvs normals sms = Inr ts \<and> length ts = length normals \<and>
        (\<forall>i<length normals.
           ts ! i = tangent_entry ar
                      (tangent_at ar (acc_value (store st) (sdir st) i) normals i)
                      (acc_value (store st) (tdir st) i))"
  proof (intro exI conjI)
    show "sm_loop ar verts uvs (init_tstate ar (length verts)) sms = Inr st" by (rule run)
    show "make_tangents ar verts uvs normals sms = Inr ?ts" by (rule mt)
    show "length ?ts = length normals" by simp
    show "\<forall>i<length normals.
      ?ts ! i = tangent_entry ar (tangent_at ar (acc_value (store st) (sdir st) i) normals i)
                  (acc_value (store st) (tdir st) i)" by (rule each)
  qed
  have c: "list_all (degenerate ar uvs) (concat sms) \<longrightarrow>
        sm_loop ar verts uvs (init_tstate ar (length verts)) sms =
          Inr (init_tstate ar (length verts))"
    using sm_loop_skip [OF len v] by blast
  from a b c show ?thesis by blast
qed

text \<open>
  Witness for C10, in exact arithmetic: the triangle (3, 4, 5) with \<open>w1 = w2 = w3\<close> is
  skipped, and the vertices 0 and 3, the latter touched by the skipped triangle only,
  both get the tangent \<open>(1, 0, 0, -1)\<close>: the accumulated \<open>sdir\<close> is \<open>(3, 0, 0)\<close>, the
  accumulated \<open>tdir\<close> is \<open>(-3, 3, 0)\<close>, and \<open>t \<cdot> tdir = -3\<close>.
\<close>

theorem make_tangents_degenerate_safe_witness:
  "div_safe exact_arith \<and> tris_valid (length six_verts) six_tris \<and>
   length six_uvs = length six_verts \<and> length six_normals = length six_verts \<and>
   degenerate exact_arith six_uvs (3, 4, 5) \<and>
   tri_step exact_arith six_verts six_uvs (init_tstate exact_arith 6) (3, 4, 5) =
     Inr (init_tstate exact_arith 6) \<and>
   tangents_0_3 (make_tangents exact_arith six_verts six_uvs six_normals six_tris) =
     Inr (6, (1, 0, 0, - 1), (1, 0, 0, - 1))"
proof -
  have v: "tris_valid (length six_verts) six_tris"
    by (simp add: tris_valid_def tri_valid_def tri_list_def six_verts_def six_tris_def)
  have len: "length six_uvs = length six_verts" by (simp add: six_uvs_def six_verts_def)
  have nl: "length six_normals = length six_verts" by (simp add: six_normals_def six_verts_def)
  have n6: "length six_normals = 6" by (simp add: six_normals_def)
  have d: "degenerate exact_arith six_uvs (3, 4, 5)"
    by (simp add: degenerate_def six_uvs_def uv_det_def exact_arith_def)
  have mem: "(3, 4, 5) \<in> set (concat six_tris)" by (simp add: six_tris_def)
  note T = make_tangents_degenerate_safe [OF exact_div_safe v len nl]
  from T d mem have skip: "tri_step exact_arith six_verts six_uvs (init_tstate exact_arith 6) (3, 4, 5) =
     Inr (init_tstate exact_arith 6)" by blast
  from T obtain st ts where
    run: "sm_loop exact_arith six_verts six_uvs (init_tstate exact_arith (length six_verts)) six_tris = Inr st"
    and mt: "make_tangents exact_arith six_verts six_uvs six_normals six_tris = Inr ts"
    and l: "length ts = length six_normals"
    and each: "\<And>i. i < length six_normals \<Longrightarrow>
           ts ! i = tangent_entry exact_arith
                      (tangent_at exact_arith (acc_value (store st) (sdir st) i) six_normals i)
                      (acc_value (store st) (tdir st) i)"
    by blast
  from six_accumulated run
  have s0: "acc_value (store st) (sdir st) 0 = (3, 0, 0)"
    and t0: "acc_value (store st) (tdir st) 0 = (- 3, 3, 0)"
    and s3: "acc_value (store st) (sdir st) 3 = (3, 0, 0)"
    and t3: "acc_value (store st) (tdir st) 3 = (- 3, 3, 0)"
    by simp_all
  have e0: "ts ! 0 = (1, 0, 0, - 1)"
    using each [of 0] by (simp add: n6 s0 t0 six_entry_0)
  have e3: "ts ! 3 = (1, 0, 0, - 1)"
    using each [of 3] by (simp add: n6 s3 t3 six_entry_3)
  have "tangents_0_3 (make_tangents exact_arith six_verts six_uvs six_normals six_tris) =
     Inr (6, (1, 0, 0, - 1), (1, 0, 0, - 1))"
    by (simp add: tangents_0_3_def mt l n6 e0 e3)
  with exact_div_safe v len nl d skip show ?thesis by blast
qed

subsection \<open>The vertex stream\<close>

text \<open>
  C9. When every corner names a vertex of the mesh, \<^verbatim>\<open>make_verts\<close> returns four lists
  of the same length (positions, uv tuples, normals, bone-group references), and on its
  positions, normals and rewritten submeshes, with one uv per vertex, \<^verbatim>\<open>make_tangents\<close>
  returns exactly one tangent per vertex, in every arithmetic in which a float that makes
  \<^verbatim>\<open>vector / float\<close> raise has a square below \<^verbatim>\<open>1e-6\<close>; a tangent has four components
  by its type.
\<close>

theorem vertex_stream_lengths:
  assumes "corners_valid m sms" and "div_safe ar"
  shows "\<exists>vs sms'. make_verts m sms = Inr (vs, sms') \<and>
     length (vs_uvs vs) = length (vs_verts vs) \<and>
     length (vs_normals vs) = length (vs_verts vs) \<and>
     length (vs_groups vs) = length (vs_verts vs) \<and>
     (\<forall>uvs. length uvs = length (vs_verts vs) \<longrightarrow>
        (\<exists>ts. make_tangents ar (vs_verts vs) uvs (vs_normals vs) sms' = Inr ts \<and>
              length ts = length (vs_verts vs)))"
proof -
  from make_verts_total [OF assms(1)] obtain vs sms' where run: "make_verts m sms = Inr (vs, sms')"
    by blast
  from make_verts_blocks [OF run] have wf: "wf_stream vs" by simp
  then have l1: "length (vs_uvs vs) = length (vs_verts vs)"
    and l2: "length (vs_normals vs) = length (vs_verts vs)"
    and l3: "length (vs_groups vs) = length (vs_verts vs)"
    by (simp_all add: wf_stream_def)
  have tv: "tris_valid (length (vs_verts vs)) sms'"
    unfolding tris_valid_def tri_valid_def list_all_iff
    using make_verts_bound [OF run] by blast
  have tg: "\<forall>uvs. length uvs = length (vs_verts vs) \<longrightarrow>
        (\<exists>ts. make_tangents ar (vs_verts vs) uvs (vs_normals vs) sms' = Inr ts \<and>
              length ts = length (vs_verts vs))"
  proof (intro allI impI)
    fix uvs :: "uv list" assume len: "length uvs = length (vs_verts vs)"
    from l2 have nle: "length (vs_normals vs) \<le> length (vs_verts vs)" by simp
    from make_tangents_ok [OF assms(2) tv len nle] l2
    show "\<exists>ts. make_tangents ar (vs_verts vs) uvs (vs_normals vs) sms' = Inr ts \<and>
              length ts = length (vs_verts vs)" by auto
  qed
  from run l1 l2 l3 tg show ?thesis by blast
qed

text \<open>Witness for C9: the quad, in exact arithmetic.\<close>

theorem vertex_stream_lengths_witness:
  "corners_valid quad_mesh [quad_tris] \<and> div_safe exact_arith \<and>
   make_verts quad_mesh [quad_tris] = Inr (quad_stream, [[(0, 1, 2), (0, 2, 3)]]) \<and>
   length (vs_uvs quad_stream) = 4 \<and> length (vs_normals quad_stream) = 4 \<and>
   length (vs_groups quad_stream) = 4 \<and> length (vs_verts quad_stream) = 4 \<and>
   \<not> isl (make_tangents exact_arith (vs_verts quad_stream) quad_uv0 (vs_normals quad_stream)
            [[(0, 1, 2), (0, 2, 3)]]) \<and>
   length (projr (make_tangents exact_arith (vs_verts quad_stream) quad_uv0
            (vs_normals quad_stream) [[(0, 1, 2), (0, 2, 3)]])) = 4"
proof -
  from vertex_stream_lengths [OF quad_corners_valid exact_div_safe] obtain vs sms' where
    run: "make_verts quad_mesh [quad_tris] = Inr (vs, sms')"
    and l1: "length (vs_uvs vs) = length (vs_verts vs)"
    and l2: "length (vs_normals vs) = length (vs_verts vs)"
    and l3: "length (vs_groups vs) = length (vs_verts vs)"
    and tg: "\<And>uvs. length uvs = length (vs_verts vs) \<Longrightarrow>
        \<exists>ts. make_tangents exact_arith (vs_verts vs) uvs (vs_normals vs) sms' = Inr ts \<and>
              length ts = length (vs_verts vs)"
    by blast
  from run quad_make_verts have vs: "vs = quad_stream" and sms': "sms' = [[(0, 1, 2), (0, 2, 3)]]"
    by simp_all
  have n: "length (vs_verts quad_stream) = 4" by (simp add: quad_stream_def)
  have "length quad_uv0 = length (vs_verts vs)" by (simp add: vs n quad_uv0_def)
  from tg [OF this] obtain ts where
    t: "make_tangents exact_arith (vs_verts quad_stream) quad_uv0 (vs_normals quad_stream)
            [[(0, 1, 2), (0, 2, 3)]] = Inr ts" and tl: "length ts = 4"
    unfolding vs sms' n by blast
  from l1 l2 l3 have "length (vs_uvs quad_stream) = 4" "length (vs_normals quad_stream) = 4"
    "length (vs_groups quad_stream) = 4" unfolding vs n by simp_all
  with quad_corners_valid exact_div_safe quad_make_verts n t tl show ?thesis by simp
qed

subsection \<open>make\_mesh\<close>

lemma tri_make_tris:
  "make_tris (obj_to_mesh tri_object) (build_submeshes (obj_to_mesh tri_object)) =
     Inr [[((0, [(0, 0), (0, 0)]), (1, [(0, 0), (1, 0)]), (2, [(0, 0), (0, 1)]))]]"
  by (simp add: tri_object_def build_submeshes_def split_face_def py_index_def bind_err_def
      face_uv_def face_corner_def uv_corner_def upt_rec)

lemma tri_make_verts:
  "make_verts (obj_to_mesh tri_object)
     [[((0, [(0, 0), (0, 0)]), (1, [(0, 0), (1, 0)]), (2, [(0, 0), (0, 1)]))]] =
   Inr (\<lparr> vs_verts = [(0, 0, 0), (1, 0, 0), (0, 1, 0)],
          vs_normals = [(0, 0, 1), (0, 0, 1), (0, 0, 1)],
          vs_uvs = [[(0, 0), (0, 0)], [(0, 0), (1, 0)], [(0, 0), (0, 1)]],
          vs_groups = tri_groups \<rparr>, [[(0, 1, 2)]])"
  by (simp add: make_verts_def tri_object_def empty_vstream_def dedup_tri_def
      dedup_corner_def bind_err_def py_index_def tri_groups_def)

lemma tri_make_tangents:
  "make_tangents exact_arith [(0, 0, 0), (1, 0, 0), (0, 1, 0)] [(0, 0), (0, 0), (0, 0)]
     [(0, 0, 1), (0, 0, 1), (0, 0, 1)] [[(0, 1, 2)]] =
   Inr [(0, 0, 0, 1), (0, 0, 0, 1), (0, 0, 0, 1)]"
  by (simp add: make_tangents_def tri_step_def init_tstate_def Vector_new_def empty_heap_def
      py_index_def bind_err_def vertex_tangent_def Vector_isub_def Vector_normalize_def
      vsub_def vscale_def vdot_def vnormalized_def exact_arith_def)

lemma tri_make_mesh:
  "make_mesh exact_arith tri_object =
     Inr (tri_mumesh, (obj_to_mesh tri_object)\<lparr> mesh_groups := Some tri_groups \<rparr>)"
  unfolding make_mesh_def Let_def tri_make_tris
  by (simp add: bind_err_def tri_make_verts assign_uvs_def py_index_def MuMesh_def
      tri_make_tangents tri_mumesh_def del: One_nat_def)

lemma assign_uvs_keeps:
  assumes "assign_uvs mm uvs = Inr mm1"
  shows "mu_groups mm1 = mu_groups mm \<and> mu_verts mm1 = mu_verts mm"
proof (cases "uvs = []")
  case True
  with assms show ?thesis by (simp add: assign_uvs_def)
next
  case False
  then have pos: "0 < length uvs" by simp
  from assms False pos obtain us where
    a: "map_err (\<lambda>uv. py_index uv 0) uvs = Inr us"
    and b: "(if 1 < length uvs
             then bind_err (map_err (\<lambda>uv. py_index uv 1) uvs) (\<lambda>us2. Inr (mm\<lparr> mu_uvs := us, mu_uv2s := us2 \<rparr>))
             else Inr (mm\<lparr> mu_uvs := us \<rparr>)) = Inr mm1"
    by (cases "map_err (\<lambda>uv. py_index uv 0) uvs") (simp_all add: assign_uvs_def bind_err_def)
  show ?thesis
  proof (cases "1 < length uvs")
    case True
    with b obtain us2 where "mm1 = mm\<lparr> mu_uvs := us, mu_uv2s := us2 \<rparr>"
      by (cases "map_err (\<lambda>uv. py_index uv 1) uvs") (auto simp: bind_err_def)
    then show ?thesis by simp
  next
    case False
    with b have "mm1 = mm\<lparr> mu_uvs := us \<rparr>" by simp
    then show ?thesis by simp
  qed
qed

lemma make_mesh_parts:
  assumes run: "make_mesh ar obj = Inr (mm, m')"
  shows "\<exists>tris vs sms'. make_tris (obj_to_mesh obj) (build_submeshes (obj_to_mesh obj)) = Inr tris \<and>
     make_verts (obj_to_mesh obj) tris = Inr (vs, sms') \<and>
     m' = (obj_to_mesh obj)\<lparr> mesh_groups := Some (vs_groups vs) \<rparr> \<and>
     mu_groups mm = None \<and> mu_verts mm = vs_verts vs"
proof -
  let ?m = "obj_to_mesh obj"
  from run obtain tris where t: "make_tris ?m (build_submeshes ?m) = Inr tris"
    by (cases "make_tris ?m (build_submeshes ?m)") (simp_all add: make_mesh_def bind_err_def)
  from run t obtain vs sms' where v: "make_verts ?m tris = Inr (vs, sms')"
    by (cases "make_verts ?m tris") (auto simp: make_mesh_def bind_err_def)
  let ?mm0 = "MuMesh\<lparr> mu_verts := vs_verts vs, mu_normals := vs_normals vs \<rparr>"
  from run t v obtain mm1 where a: "assign_uvs ?mm0 (vs_uvs vs) = Inr mm1"
    by (cases "assign_uvs ?mm0 (vs_uvs vs)") (simp_all add: make_mesh_def bind_err_def)
  let ?mm2 = "mm1\<lparr> mu_submeshes := sms' \<rparr>"
  from assign_uvs_keeps [OF a] have g1: "mu_groups mm1 = None" and v1: "mu_verts mm1 = vs_verts vs"
    by (simp_all add: MuMesh_def)
  have rest: "(if mu_uvs ?mm2 \<noteq> []
        then bind_err (make_tangents ar (mu_verts ?mm2) (mu_uvs ?mm2) (mu_normals ?mm2) (mu_submeshes ?mm2))
               (\<lambda>ts. Inr (?mm2\<lparr> mu_tangents := ts \<rparr>, ?m\<lparr> mesh_groups := Some (vs_groups vs) \<rparr>))
        else Inr (?mm2, ?m\<lparr> mesh_groups := Some (vs_groups vs) \<rparr>)) = Inr (mm, m')"
    using run by (simp add: make_mesh_def t v a bind_err_def Let_def)
  have res: "m' = ?m\<lparr> mesh_groups := Some (vs_groups vs) \<rparr> \<and> mu_groups mm = None \<and>
      mu_verts mm = vs_verts vs"
  proof (cases "mu_uvs ?mm2 \<noteq> []")
    case True
    with rest obtain ts where "mm = ?mm2\<lparr> mu_tangents := ts \<rparr>"
      and "m' = ?m\<lparr> mesh_groups := Some (vs_groups vs) \<rparr>"
      by (cases "make_tangents ar (mu_verts ?mm2) (mu_uvs ?mm2) (mu_normals ?mm2) (mu_submeshes ?mm2)")
         (auto simp: bind_err_def)
    then show ?thesis using g1 v1 by simp
  next
    case False
    with rest have "mm = ?mm2" and "m' = ?m\<lparr> mesh_groups := Some (vs_groups vs) \<rparr>" by simp_all
    then show ?thesis using g1 v1 by simp
  qed
  from t v res show ?thesis by blast
qed

lemma mesh_bones_no_groups:
  "mu_groups mm = None \<Longrightarrow> mesh_bones obj mm armature = Inl AttributeError"
  by (simp add: mesh_bones_def split: prod.splits)

text \<open>
  C6. Whenever \<^verbatim>\<open>make_mesh\<close> returns, the MuMesh it returns has no attribute
  \<^verbatim>\<open>groups\<close>; the list of bone-group references that \<^verbatim>\<open>make_verts\<close> built is
  assigned to the attribute \<^verbatim>\<open>groups\<close> of the mesh that \<^verbatim>\<open>obj.to_mesh\<close> gave, which is
  changed by the call; and \<^verbatim>\<open>mesh_bones\<close>, reading \<^verbatim>\<open>mumesh.groups\<close> of the returned
  MuMesh, raises AttributeError for every object and armature.
\<close>

theorem make_mesh_groups_on_mesh:
  assumes "make_mesh ar obj = Inr (mm, m')"
  shows "mu_groups mm = None \<and>
     (\<exists>tris vs sms'.
        make_tris (obj_to_mesh obj) (build_submeshes (obj_to_mesh obj)) = Inr tris \<and>
        make_verts (obj_to_mesh obj) tris = Inr (vs, sms') \<and>
        m' = (obj_to_mesh obj)\<lparr> mesh_groups := Some (vs_groups vs) \<rparr> \<and>
        mesh_groups m' = Some (vs_groups vs)) \<and>
     (\<forall>obj' armature. mesh_bones obj' mm armature = Inl AttributeError)"
proof -
  from make_mesh_parts [OF assms] obtain tris vs sms' where
    t: "make_tris (obj_to_mesh obj) (build_submeshes (obj_to_mesh obj)) = Inr tris"
    and v: "make_verts (obj_to_mesh obj) tris = Inr (vs, sms')"
    and m': "m' = (obj_to_mesh obj)\<lparr> mesh_groups := Some (vs_groups vs) \<rparr>"
    and g: "mu_groups mm = None"
    by blast
  from m' have mg: "mesh_groups m' = Some (vs_groups vs)" by simp
  have b: "\<forall>obj' armature. mesh_bones obj' mm armature = Inl AttributeError"
    using mesh_bones_no_groups [OF g] by blast
  from g t v m' mg b show ?thesis by blast
qed

text \<open>Witness for C6: the triangle object, in exact arithmetic.\<close>

theorem make_mesh_groups_on_mesh_witness:
  "make_mesh exact_arith tri_object =
     Inr (tri_mumesh, (obj_to_mesh tri_object)\<lparr> mesh_groups := Some tri_groups \<rparr>) \<and>
   mesh_groups (obj_to_mesh tri_object) = None \<and>
   mu_groups tri_mumesh = None \<and>
   mesh_bones tri_object tri_mumesh [''A''] = Inl AttributeError"
proof -
  from make_mesh_groups_on_mesh [OF tri_make_mesh]
  have g: "mu_groups tri_mumesh = None"
    and b: "mesh_bones tri_object tri_mumesh [''A''] = Inl AttributeError"
    by blast+
  have "mesh_groups (obj_to_mesh tri_object) = None" by (simp add: tri_object_def)
  with tri_make_mesh g b show ?thesis by simp
qed

end
